theory Spec2Isabelle
  imports
    Main
    "HOL-Library.Word"
    "HOL-Library.Multiset"
    "HOL-Library.Sublist"
    "HOL-Library.Char_ord"
    "HOL-Library.List_Lexorder"
begin

unbundle bit_operations_syntax

section \<open>Identifier generator\<close>

text \<open>
  \<^verbatim>\<open>identifier_generator\<close> owns a 16-byte array and the number of symbols in use.
  \<^verbatim>\<open>next()\<close> returns \<^verbatim>\<open>_identifier.data()\<close>, read by its callers as a C string: the
  bytes up to the first NUL. A write past the end of the array has no defined result and
  is the value \<open>None\<close>.
\<close>

definition VCD_NAME_START :: char where
  "VCD_NAME_START = CHR ''!''"

definition VCD_NAME_END :: char where
  "VCD_NAME_END = CHR ''z''"

record identifier_generator =
  identifier_buf :: "char list"
  identifier_size :: nat

definition fresh_generator :: identifier_generator where
  "fresh_generator = \<lparr> identifier_buf = replicate 16 (CHR 0x00), identifier_size = 0 \<rparr>"

definition c_str :: "char list \<Rightarrow> string" where
  "c_str buf = takeWhile (\<lambda>c. c \<noteq> CHR 0x00) buf"

text \<open>
  The \<^verbatim>\<open>do { i--; ... } while (i != 0)\<close> loop of \<^verbatim>\<open>next()\<close>, entered with \<open>i > 0\<close>:
  \<open>Inl buf\<close> is the early \<^verbatim>\<open>return\<close> after an increment, \<open>Inr buf\<close> is the fall-through
  with every position wrapped to the first symbol.
\<close>

fun increment_last :: "nat \<Rightarrow> char list \<Rightarrow> char list + char list" where
  "increment_last 0 buf = Inr buf"
| "increment_last (Suc i) buf =
     (if buf ! i = VCD_NAME_END
      then (let buf' = buf[i := VCD_NAME_START]
            in if i = 0 then Inr buf' else increment_last i buf')
      else Inl (buf[i := char_of (of_char (buf ! i) + (1::nat))]))"

definition identifier_generator_next ::
  "identifier_generator \<Rightarrow> (string \<times> identifier_generator) option" where
  "identifier_generator_next g =
     (let n = identifier_size g; buf = identifier_buf g in
      if n = length buf then Some (c_str buf, g)
      else if n = 0 then
        (let buf' = (buf[0 := VCD_NAME_START])[1 := CHR 0x00]
         in Some (c_str buf', \<lparr> identifier_buf = buf', identifier_size = 1 \<rparr>))
      else
        (case increment_last n buf of
           Inl buf' \<Rightarrow> Some (c_str buf', \<lparr> identifier_buf = buf', identifier_size = n \<rparr>)
         | Inr buf' \<Rightarrow>
             if Suc n < length buf
             then (let buf'' = (buf'[n := VCD_NAME_START])[Suc n := CHR 0x00]
                   in Some (c_str buf'', \<lparr> identifier_buf = buf'', identifier_size = Suc n \<rparr>))
             else None))"

text \<open>Call number \<open>n\<close> (counting from 0) on a generator: \<open>n\<close> calls whose results are
  dropped, then the call whose result is kept, as the test helper \<^verbatim>\<open>GenerateVcdKey\<close> does.\<close>

fun GenerateVcdKey_from :: "nat \<Rightarrow> identifier_generator \<Rightarrow> string option" where
  "GenerateVcdKey_from 0 g = map_option fst (identifier_generator_next g)"
| "GenerateVcdKey_from (Suc n) g =
     (case identifier_generator_next g of
        None \<Rightarrow> None
      | Some (_, g') \<Rightarrow> GenerateVcdKey_from n g')"

definition GenerateVcdKey :: "nat \<Rightarrow> string option" where
  "GenerateVcdKey number = GenerateVcdKey_from number fresh_generator"


section \<open>Value encoder\<close>

text \<open>
  \<^verbatim>\<open>value_base::dump<T>\<close> selects its branch by the element type \<^verbatim>\<open>T\<close>, not by the bit
  size. The element types modelled are \<^verbatim>\<open>bool\<close> and the integer types, given by their
  signedness and width in bits; the floating-point branch, which prints through
  \<^verbatim>\<open>snprintf\<close>, is not modelled. A raw value is the mathematical integer the C++ value
  denotes (\<^verbatim>\<open>true\<close> is 1, \<^verbatim>\<open>false\<close> is 0).
\<close>

datatype value_state = unknown_x | undriven_z | known

datatype elem_type = T_bool | T_integral bool nat

definition newline :: string where
  "newline = [CHR 0x0A]"

text \<open>Integer promotion: a type narrower than \<^verbatim>\<open>int\<close> is promoted to the 32-bit signed
  \<^verbatim>\<open>int\<close>, any other integer type is kept.\<close>

definition promoted_signed :: "bool \<Rightarrow> nat \<Rightarrow> bool" where
  "promoted_signed sg w = (w < 32 \<or> sg)"

definition promoted_width :: "nat \<Rightarrow> nat" where
  "promoted_width w = max w 32"

text \<open>Conversion of an integer to the integer type of signedness \<open>sg\<close> and width \<open>w\<close>
  (two's complement, modulo \<open>2 ^ w\<close>).\<close>

definition convert :: "bool \<Rightarrow> nat \<Rightarrow> int \<Rightarrow> int" where
  "convert sg w x = (if sg then signed_take_bit (w - 1) x else take_bit w x)"

text \<open>
  \<^verbatim>\<open>T mask = static_cast<T>(1) << (bit_size - 1)\<close>: the shift is done in the promoted
  type and the result converted to \<^verbatim>\<open>T\<close>. \<^verbatim>\<open>bit_size\<close> is a \<^verbatim>\<open>size_t\<close>, so
  \<^verbatim>\<open>bit_size - 1\<close> is huge for \<^verbatim>\<open>bit_size = 0\<close>; a shift count that is not below the
  width of the promoted type has no defined result (\<open>None\<close>).
\<close>

definition initial_mask :: "bool \<Rightarrow> nat \<Rightarrow> nat \<Rightarrow> int option" where
  "initial_mask sg w bit_size =
     (if bit_size = 0 \<or> promoted_width w \<le> bit_size - 1 then None
      else Some (convert sg w
                  (convert (promoted_signed sg w) (promoted_width w)
                     (push_bit (bit_size - 1) 1))))"

text \<open>\<^verbatim>\<open>mask = mask >> 1\<close>: an arithmetic shift of the promoted value, converted back.\<close>

definition shift_mask :: "bool \<Rightarrow> nat \<Rightarrow> int \<Rightarrow> int" where
  "shift_mask sg w m = convert sg w (drop_bit 1 m)"

definition bit_char :: "bool \<Rightarrow> string" where
  "bit_char b = (if b then ''1'' else ''0'')"

text \<open>The \<^verbatim>\<open>for (int i = bit_size - 2; i >= 0; i--)\<close> loop with the final
  \<^verbatim>\<open>out << (prev_bit ? "1" : "0")\<close>; the first argument counts the iterations left.\<close>

fun dump_bits :: "nat \<Rightarrow> bool \<Rightarrow> nat \<Rightarrow> int \<Rightarrow> int \<Rightarrow> bool \<Rightarrow> bool \<Rightarrow> string" where
  "dump_bits 0 sg w m v prev_bit compress = bit_char prev_bit"
| "dump_bits (Suc n) sg w m v prev_bit compress =
     (let m' = shift_mask sg w m;
          this_bit = (v AND m' \<noteq> 0)
      in if compress \<and> this_bit = prev_bit
         then dump_bits n sg w m' v this_bit compress
         else bit_char prev_bit @ dump_bits n sg w m' v this_bit False)"

definition value_base_dump ::
  "elem_type \<Rightarrow> string \<Rightarrow> nat \<Rightarrow> value_state \<Rightarrow> int \<Rightarrow> string option" where
  "value_base_dump T ident bit_size st v =
     (case T of
        T_bool \<Rightarrow>
          (if st = unknown_x then Some (''x'' @ ident @ newline)
           else if st = undriven_z then Some (''z'' @ ident @ newline)
           else Some ((if v \<noteq> 0 then ''1'' else ''0'') @ ident @ newline))
      | T_integral sg w \<Rightarrow>
          (if st = unknown_x then Some (''b'' @ ''x'' @ '' '' @ ident @ newline)
           else if st = undriven_z then Some (''b'' @ ''z'' @ '' '' @ ident @ newline)
           else (case initial_mask sg w bit_size of
                   None \<Rightarrow> None
                 | Some m \<Rightarrow>
                     Some (''b'' @ dump_bits (bit_size - 1) sg w m v
                                     (v AND m \<noteq> 0) True
                           @ '' '' @ ident @ newline))))"

text \<open>The compaction rule in the words of the specification: the bits of the value, most
  significant first, with the leading run of bits equal to the first one collapsed to one
  copy.\<close>

definition bits_msb_first :: "nat \<Rightarrow> int \<Rightarrow> bool list" where
  "bits_msb_first bit_size v = map (bit v) (rev [0..<bit_size])"

fun compact_leading_run :: "bool list \<Rightarrow> bool list" where
  "compact_leading_run [] = []"
| "compact_leading_run (b # bs) = b # dropWhile (\<lambda>x. x = b) bs"

definition bit_string :: "bool list \<Rightarrow> string" where
  "bit_string bs = concat (map bit_char bs)"

text \<open>A power of two \<open>2 ^ n\<close> is a value of the integer type of signedness \<open>sg\<close> and
  width \<open>w\<close>: below the sign bit for a signed type, below the width otherwise.\<close>

definition representable :: "bool \<Rightarrow> nat \<Rightarrow> nat \<Rightarrow> bool" where
  "representable sg w n = (if sg then Suc n < w else n < w)"

section \<open>Buffered signals\<close>

text \<open>
  \<^verbatim>\<open>value<T, BIT_SIZE, TRACE_DEPTH, CUR_SEQ>\<close>. The template parameters are fields of the
  record; \<open>CUR_SEQ\<close> says whether the pointer to the shared sequence counter is non-null, and
  the operations that read \<^verbatim>\<open>*CUR_SEQ\<close> take its current value as the argument \<open>cur\<close>.
  A sample without a counter has no \<^verbatim>\<open>sequence\<close> member: its field is never written.
  The read index is an \<^verbatim>\<open>int\<close> that is only reset to 0 and incremented, hence a \<open>nat\<close>;
  the write index takes the value \<open>-1\<close>.
\<close>

type_synonym sequence_t = "64 word"

record sample =
  sample_sequence :: sequence_t
  sample_state :: value_state
  sample_value :: int

record dump_sequence_t =
  dumped :: "sequence_t option"
  next_sequence :: "sequence_t option"

definition end_sequence :: dump_sequence_t where
  "end_sequence = \<lparr> dumped = None, next_sequence = None \<rparr>"

text \<open>The updater handed back by a registration: the stub \<^verbatim>\<open>scope_fn::nop_update\<close>, or the
  closure of \<^verbatim>\<open>top::top\<close> that holds the identifier whose slot it rewrites.\<close>

datatype updater_fn = nop_update | top_updater string

record signal =
  elem :: elem_type
  BIT_SIZE :: nat
  TRACE_DEPTH :: nat
  CUR_SEQ :: bool
  scope_identifier :: string
  scope_updater :: updater_fn
  idx_write :: int
  idx_read :: nat
  samples :: "sample list"

definition sample_set :: "bool \<Rightarrow> sequence_t \<Rightarrow> int \<Rightarrow> sample \<Rightarrow> sample" where
  "sample_set sequenced cur v smp =
     \<lparr> sample_sequence = (if sequenced then cur else sample_sequence smp),
       sample_state = known,
       sample_value = v \<rparr>"

definition sample_set_state :: "bool \<Rightarrow> sequence_t \<Rightarrow> value_state \<Rightarrow> sample \<Rightarrow> sample" where
  "sample_set_state sequenced cur S smp =
     smp \<lparr> sample_sequence := (if sequenced then cur else sample_sequence smp),
           sample_state := S \<rparr>"

text \<open>The slot \<^verbatim>\<open>_samples[static_cast<size_t>(_idx.write % TRACE_DEPTH)]\<close>, read only
  where the write index is not negative.\<close>

definition write_slot :: "signal \<Rightarrow> nat" where
  "write_slot s = nat (idx_write s) mod TRACE_DEPTH s"

definition sample_changed :: "int \<Rightarrow> int \<Rightarrow> bool" where
  "sample_changed new_sample prev_sample = (new_sample \<noteq> prev_sample)"

definition value_set_state :: "sequence_t \<Rightarrow> value_state \<Rightarrow> signal \<Rightarrow> signal" where
  "value_set_state cur S s =
     (if TRACE_DEPTH s = 1 then
        (if sample_state (samples s ! 0) \<noteq> S
         then s \<lparr> samples := (samples s)[0 := sample_set_state (CUR_SEQ s) cur S (samples s ! 0)],
                 idx_write := 1 \<rparr>
         else s)
      else
        (if idx_write s = -1 \<or>
            (idx_write s < int (TRACE_DEPTH s) \<and>
             sample_state (samples s ! write_slot s) \<noteq> S)
         then
           (let s1 = (if idx_write s = -1 \<or> sample_sequence (samples s ! write_slot s) \<noteq> cur
                      then s \<lparr> idx_write := idx_write s + 1 \<rparr> else s)
            in if idx_write s1 < int (TRACE_DEPTH s1)
               then s1 \<lparr> samples := (samples s1)[write_slot s1 :=
                           sample_set_state (CUR_SEQ s1) cur S (samples s1 ! write_slot s1)] \<rparr>
               else s1)
         else s))"

definition value_unknown :: "sequence_t \<Rightarrow> signal \<Rightarrow> signal" where
  "value_unknown cur s = value_set_state cur unknown_x s"

definition value_undriven :: "sequence_t \<Rightarrow> signal \<Rightarrow> signal" where
  "value_undriven cur s = value_set_state cur undriven_z s"

definition value_set :: "sequence_t \<Rightarrow> int \<Rightarrow> signal \<Rightarrow> signal" where
  "value_set cur v s =
     (if TRACE_DEPTH s = 1 then
        (if sample_changed v (sample_value (samples s ! 0)) \<or>
            sample_state (samples s ! 0) \<noteq> known
         then s \<lparr> samples := (samples s)[0 := sample_set (CUR_SEQ s) cur v (samples s ! 0)],
                 idx_write := 1 \<rparr>
         else s)
      else
        (if idx_write s = -1 \<or>
            (idx_write s < int (TRACE_DEPTH s) \<and>
             (sample_changed v (sample_value (samples s ! write_slot s)) \<or>
              sample_state (samples s ! write_slot s) \<noteq> known))
         then
           (let s1 = (if idx_write s = -1 \<or> sample_sequence (samples s ! write_slot s) \<noteq> cur
                      then s \<lparr> idx_write := idx_write s + 1 \<rparr> else s)
            in if idx_write s1 < int (TRACE_DEPTH s1)
               then s1 \<lparr> samples := (samples s1)[write_slot s1 :=
                           sample_set (CUR_SEQ s1) cur v (samples s1 ! write_slot s1)] \<rparr>
               else s1)
         else s))"

text \<open>The text \<^verbatim>\<open>value_base::dump<T>\<close> writes for slot \<open>i\<close> of a signal.\<close>

definition dump_sample :: "signal \<Rightarrow> nat \<Rightarrow> string option" where
  "dump_sample s i =
     value_base_dump (elem s) (scope_identifier s) (BIT_SIZE s)
       (sample_state (samples s ! i)) (sample_value (samples s ! i))"

text \<open>
  \<^verbatim>\<open>value::dump(out, start)\<close>. The result is the text appended to the stream, the
  signal after the call and the returned \<^verbatim>\<open>dump_sequence_t\<close>; \<open>None\<close> where the encoder
  has no defined result.
\<close>

definition value_dump :: "signal \<Rightarrow> bool \<Rightarrow> (string \<times> signal \<times> dump_sequence_t) option" where
  "value_dump s start =
     (if TRACE_DEPTH s = 1 then
        (if idx_write s \<noteq> 0 then
           (case dump_sample s 0 of
              None \<Rightarrow> None
            | Some txt \<Rightarrow> Some (txt, s \<lparr> idx_write := 0 \<rparr>, end_sequence))
         else Some ([], s, end_sequence))
      else
        (let s1 = (if start then s \<lparr> idx_read := 0 \<rparr> else s) in
         if int (idx_read s1) > idx_write s1
         then Some ([], s1 \<lparr> idx_write := -1 \<rparr>, end_sequence)
         else
           (let read_index = idx_read s1 mod TRACE_DEPTH s1 in
            if start
            then Some ([], s1, \<lparr> dumped = None,
                   next_sequence = Some (sample_sequence (samples s1 ! read_index)) \<rparr>)
            else
              (case dump_sample s1 read_index of
                 None \<Rightarrow> None
               | Some txt \<Rightarrow>
                   (let s2 = s1 \<lparr> idx_read := idx_read s1 + 1 \<rparr>;
                        done = Some (sample_sequence (samples s1 ! read_index))
                    in if \<not> CUR_SEQ s2
                       then Some (txt, s2, \<lparr> dumped = done, next_sequence = None \<rparr>)
                       else if int (idx_read s2) > idx_write s2
                       then Some (txt, s2 \<lparr> idx_write := -1 \<rparr>,
                                  \<lparr> dumped = done, next_sequence = None \<rparr>)
                       else Some (txt, s2,
                                  \<lparr> dumped = done,
                                    next_sequence = Some (sample_sequence
                                      (samples s2 ! (idx_read s2 mod TRACE_DEPTH s2))) \<rparr>))))))"

text \<open>
  The constructors of \<^verbatim>\<open>value\<close>, without the registration that two of them perform.
  Every slot starts with sequence \<^verbatim>\<open>-1\<close>, state unknown and an uninitialised value, whose
  content is the argument \<open>garbage\<close>. With \<open>by_add_fn\<close> (the constructors that take an
  \<^verbatim>\<open>add_fn\<close>) and no default value, slot 0 is left as it is; otherwise slot 0 is set
  to the default value, or to the unknown state. A \<^verbatim>\<open>TRACE_DEPTH\<close> of 0, and a buffered
  signal without a sequence counter, cannot be instantiated (\<open>None\<close>).
\<close>

definition value_ctor ::
  "elem_type \<Rightarrow> nat \<Rightarrow> nat \<Rightarrow> bool \<Rightarrow> sequence_t \<Rightarrow> bool \<Rightarrow> int option \<Rightarrow> int \<Rightarrow> signal option" where
  "value_ctor T bits depth sequenced cur by_add_fn default_value garbage =
     (if depth = 0 \<or> (1 < depth \<and> \<not> sequenced) then None
      else
        (let blank = \<lparr> sample_sequence = - 1, sample_state = unknown_x, sample_value = garbage \<rparr>;
             slot0 = (case default_value of
                        Some v \<Rightarrow> sample_set sequenced cur v blank
                      | None \<Rightarrow> if by_add_fn then blank
                                else sample_set_state sequenced cur unknown_x blank)
         in Some \<lparr> elem = T, BIT_SIZE = bits, TRACE_DEPTH = depth, CUR_SEQ = sequenced,
                   scope_identifier = [], scope_updater = nop_update,
                   idx_write = - 1, idx_read = 0,
                   samples = (replicate depth blank)[0 := slot0] \<rparr>))"

text \<open>The texts written by successive calls of \<^verbatim>\<open>dump\<close> on one signal, one call per
  \<^verbatim>\<open>start\<close> flag of the list.\<close>

fun dump_run :: "signal \<Rightarrow> bool list \<Rightarrow> string list option" where
  "dump_run s [] = Some []"
| "dump_run s (start # starts) =
     (case value_dump s start of
        None \<Rightarrow> None
      | Some (txt, s', r) \<Rightarrow> map_option ((#) txt) (dump_run s' starts))"

text \<open>Two states of a signal with the same configuration and the same stored slots.\<close>

definition same_slots :: "signal \<Rightarrow> signal \<Rightarrow> bool" where
  "same_slots s s' =
     (samples s' = samples s \<and> elem s' = elem s \<and> BIT_SIZE s' = BIT_SIZE s \<and>
      TRACE_DEPTH s' = TRACE_DEPTH s \<and> scope_identifier s' = scope_identifier s)"

text \<open>
  A buffered signal with no room for a write made at counter value \<open>cur\<close>: all \<open>D\<close> slots
  are pending and the counter has moved on since the last slot was written, or the write
  index has already run past the last slot.
\<close>

definition buffer_full :: "sequence_t \<Rightarrow> signal \<Rightarrow> bool" where
  "buffer_full cur s =
     (1 < TRACE_DEPTH s \<and>
      (idx_write s = int (TRACE_DEPTH s) - 1 \<and>
         sample_sequence (samples s ! write_slot s) \<noteq> cur
       \<or> int (TRACE_DEPTH s) \<le> idx_write s))"

text \<open>A \<^verbatim>\<open>value<int, 9, 2, &seq>\<close> with identifier \<open>!\<close> after \<^verbatim>\<open>set(1)\<close> at sequence 42 and
  \<^verbatim>\<open>set(2)\<close> at sequence 43: both slots are pending.\<close>

definition full_example :: signal where
  "full_example =
     \<lparr> elem = T_integral True 32, BIT_SIZE = 9, TRACE_DEPTH = 2, CUR_SEQ = True,
       scope_identifier = ''!'', scope_updater = nop_update,
       idx_write = 1, idx_read = 0,
       samples = [\<lparr> sample_sequence = 42, sample_state = known, sample_value = 1 \<rparr>,
                  \<lparr> sample_sequence = 43, sample_state = known, sample_value = 2 \<rparr>] \<rparr>"

section \<open>Scope tree\<close>

text \<open>Decimal text of an unsigned number, as \<^verbatim>\<open>operator<<\<close> writes it.\<close>

fun dec :: "nat \<Rightarrow> string" where
  "dec n = (if n < 10 then [char_of (48 + n)]
            else dec (n div 10) @ [char_of (48 + n mod 10)])"

declare dec.simps [simp del]

text \<open>
  A \<^verbatim>\<open>module_instance\<close> holds its name, the header text collected in \<^verbatim>\<open>vcd_scope\<close> and
  its children in the order they were pushed. The shared pointers form a tree, which is the
  datatype; a \<^verbatim>\<open>module\<close> object is addressed by the positions of its ancestors' child lists
  that lead from the root to its \<^verbatim>\<open>_context\<close>.
\<close>

datatype module_instance =
  Module_instance (instance_name: string) (vcd_scope: string) (children: "module_instance list")

type_synonym module_path = "nat list"

definition scope_line :: "string \<Rightarrow> string" where
  "scope_line name = ''$scope module '' @ name @ '' $end'' @ newline"

definition var_line :: "string \<Rightarrow> nat \<Rightarrow> string \<Rightarrow> string \<Rightarrow> string" where
  "var_line var_type bit_size ident var_name =
     ''$var '' @ var_type @ '' '' @ dec bit_size @ '' '' @ ident @ '' '' @ var_name
     @ '' $end'' @ newline"

definition upscope_line :: string where
  "upscope_line = ''$upscope $end'' @ newline"

text \<open>The constructors of \<^verbatim>\<open>module\<close> create the context and write its \<^verbatim>\<open>$scope\<close> line.\<close>

definition module_ctor :: "string \<Rightarrow> module_instance" where
  "module_ctor name = Module_instance name (scope_line name) []"

fun update_at ::
  "module_path \<Rightarrow> (module_instance \<Rightarrow> module_instance) \<Rightarrow> module_instance
     \<Rightarrow> module_instance option" where
  "update_at [] f m = Some (f m)"
| "update_at (i # p) f (Module_instance n txt cs) =
     (if i < length cs
      then (case update_at p f (cs ! i) of
              None \<Rightarrow> None
            | Some c \<Rightarrow> Some (Module_instance n txt (cs[i := c])))
      else None)"

text \<open>\<^verbatim>\<open>module(module &parent, name)\<close> and \<^verbatim>\<open>get_module\<close>: the new context is pushed to
  the back of the parent's children.\<close>

definition module_child_ctor ::
  "module_path \<Rightarrow> string \<Rightarrow> module_instance \<Rightarrow> module_instance option" where
  "module_child_ctor parent name root =
     update_at parent
       (\<lambda>m. Module_instance (instance_name m) (vcd_scope m) (children m @ [module_ctor name]))
       root"

text \<open>
  The path string a registration reaches the root's \<^verbatim>\<open>_register_fn\<close> with:
  \<^verbatim>\<open>add_var\<close> puts the module's name and a dot before the variable name, and
  \<^verbatim>\<open>register_var\<close> of every ancestor puts its own name and a dot before that.
\<close>

fun register_path :: "module_instance \<Rightarrow> module_path \<Rightarrow> string \<Rightarrow> string option" where
  "register_path m [] var_name = Some (instance_name m @ ''.'' @ var_name)"
| "register_path m (i # p) var_name =
     (if i < length (children m)
      then map_option (\<lambda>rest. instance_name m @ ''.'' @ rest)
             (register_path (children m ! i) p var_name)
      else None)"

text \<open>
  \<^verbatim>\<open>module::add_var\<close> on the module at \<open>p\<close>. The root's \<^verbatim>\<open>_register_fn\<close> is the
  parameter \<open>reg\<close>, a function of its own state \<open>r\<close>, the path and the dumper, that
  returns the identifier it assigned; the \<^verbatim>\<open>$var\<close> line is appended to the module's text.
\<close>

definition module_add_var ::
  "('r \<Rightarrow> string \<Rightarrow> 'f \<Rightarrow> (string \<times> 'r) option) \<Rightarrow> 'r \<Rightarrow> module_instance \<Rightarrow> module_path
     \<Rightarrow> string \<Rightarrow> string \<Rightarrow> nat \<Rightarrow> 'f \<Rightarrow> (string \<times> 'r \<times> module_instance) option" where
  "module_add_var reg r root p var_name var_type bit_size fn =
     (case register_path root p var_name of
        None \<Rightarrow> None
      | Some child_path \<Rightarrow>
          (case reg r child_path fn of
             None \<Rightarrow> None
           | Some (ident, r') \<Rightarrow>
               (case update_at p
                       (\<lambda>m. Module_instance (instance_name m)
                               (vcd_scope m @ var_line var_type bit_size ident var_name)
                               (children m))
                       root of
                  None \<Rightarrow> None
                | Some root' \<Rightarrow> Some (ident, r', root'))))"

text \<open>The recursive \<^verbatim>\<open>module::finalize_header(out, context)\<close>.\<close>

fun finalize_header_context :: "module_instance \<Rightarrow> string" where
  "finalize_header_context (Module_instance n txt cs) =
     txt @ concat (map finalize_header_context cs) @ upscope_line"

text \<open>An elaboration is a sequence of module constructions and variable registrations.\<close>

datatype 'f elab_op =
  New_module module_path string
| Add_var module_path string string nat 'f

fun elaborate_ops ::
  "('r \<Rightarrow> string \<Rightarrow> 'f \<Rightarrow> (string \<times> 'r) option) \<Rightarrow> 'f elab_op list \<Rightarrow> 'r \<Rightarrow> module_instance
     \<Rightarrow> ('r \<times> module_instance) option" where
  "elaborate_ops reg [] r root = Some (r, root)"
| "elaborate_ops reg (New_module p name # ops) r root =
     (case module_child_ctor p name root of
        None \<Rightarrow> None
      | Some root' \<Rightarrow> elaborate_ops reg ops r root')"
| "elaborate_ops reg (Add_var p var_name var_type bit_size fn # ops) r root =
     (case module_add_var reg r root p var_name var_type bit_size fn of
        None \<Rightarrow> None
      | Some (ident, r', root') \<Rightarrow> elaborate_ops reg ops r' root')"

subsection \<open>The header in the words of the specification\<close>

text \<open>
  A scope tree as data: each node has its name, the declarations of the variables it owns
  in registration order and its children in creation order. The header text of a node is
  its \<^verbatim>\<open>$scope\<close> line, one \<^verbatim>\<open>$var\<close> line per variable, the text of its children and one
  \<^verbatim>\<open>$upscope\<close> line.
\<close>

datatype var_decl = Var_decl string nat string string

datatype scope = Scope string "var_decl list" "scope list"

fun var_decl_line :: "var_decl \<Rightarrow> string" where
  "var_decl_line (Var_decl var_type bit_size ident var_name) =
     var_line var_type bit_size ident var_name"

fun header_text :: "scope \<Rightarrow> string" where
  "header_text (Scope name vars cs) =
     scope_line name @ concat (map var_decl_line vars) @ concat (map header_text cs)
     @ upscope_line"

fun scope_at :: "module_path \<Rightarrow> (scope \<Rightarrow> scope) \<Rightarrow> scope \<Rightarrow> scope option" where
  "scope_at [] f sc = Some (f sc)"
| "scope_at (i # p) f (Scope n vars cs) =
     (if i < length cs
      then (case scope_at p f (cs ! i) of
              None \<Rightarrow> None
            | Some c \<Rightarrow> Some (Scope n vars (cs[i := c])))
      else None)"

fun scope_names :: "scope \<Rightarrow> module_path \<Rightarrow> string \<Rightarrow> string option" where
  "scope_names (Scope n vars cs) [] var_name = Some (n @ ''.'' @ var_name)"
| "scope_names (Scope n vars cs) (i # p) var_name =
     (if i < length cs
      then map_option (\<lambda>rest. n @ ''.'' @ rest) (scope_names (cs ! i) p var_name)
      else None)"

text \<open>The same elaboration on the scope tree: a new module is a new last child, a
  registered variable a new last declaration with the identifier the registration returned.\<close>

fun scope_ops ::
  "('r \<Rightarrow> string \<Rightarrow> 'f \<Rightarrow> (string \<times> 'r) option) \<Rightarrow> 'f elab_op list \<Rightarrow> 'r \<Rightarrow> scope
     \<Rightarrow> ('r \<times> scope) option" where
  "scope_ops reg [] r sc = Some (r, sc)"
| "scope_ops reg (New_module p name # ops) r sc =
     (case scope_at p (\<lambda>s. case s of Scope n vars cs \<Rightarrow> Scope n vars (cs @ [Scope name [] []])) sc of
        None \<Rightarrow> None
      | Some sc' \<Rightarrow> scope_ops reg ops r sc')"
| "scope_ops reg (Add_var p var_name var_type bit_size fn # ops) r sc =
     (case scope_names sc p var_name of
        None \<Rightarrow> None
      | Some child_path \<Rightarrow>
          (case reg r child_path fn of
             None \<Rightarrow> None
           | Some (ident, r') \<Rightarrow>
               (case scope_at p
                       (\<lambda>s. case s of Scope n vars cs \<Rightarrow>
                          Scope n (vars @ [Var_decl var_type bit_size ident var_name]) cs) sc of
                  None \<Rightarrow> None
                | Some sc' \<Rightarrow> scope_ops reg ops r' sc')))"

text \<open>The module tree that holds the text of a scope tree.\<close>

fun module_of_scope :: "scope \<Rightarrow> module_instance" where
  "module_of_scope (Scope name vars cs) =
     Module_instance name (scope_line name @ concat (map var_decl_line vars))
       (map module_of_scope cs)"

text \<open>The registration function of the module test: the identifier is the full path.\<close>

definition path_register :: "unit \<Rightarrow> string \<Rightarrow> unit \<Rightarrow> (string \<times> unit) option" where
  "path_register r full_path fn = Some (full_path, r)"

definition module_test_ops :: "unit elab_op list" where
  "module_test_ops =
     [New_module [] ''mod1'', New_module [] ''mod2'',
      New_module [0] ''submod_a'', New_module [0] ''submod_b'', New_module [1] ''submod_c'',
      Add_var [] ''ka'' ''real'' 32 (),
      Add_var [0] ''ki'' ''real'' 64 (),
      Add_var [1] ''ku'' ''wire'' 1 (),
      Add_var [0, 0] ''ke'' ''wire'' 32 (),
      Add_var [1, 0] ''ko'' ''wire'' 16 ()]"

definition module_test_header :: string where
  "module_test_header =
     ''$scope module root $end'' @ newline @
     ''$var real 32 root.ka ka $end'' @ newline @
     ''$scope module mod1 $end'' @ newline @
     ''$var real 64 root.mod1.ki ki $end'' @ newline @
     ''$scope module submod_a $end'' @ newline @
     ''$var wire 32 root.mod1.submod_a.ke ke $end'' @ newline @
     ''$upscope $end'' @ newline @
     ''$scope module submod_b $end'' @ newline @
     ''$upscope $end'' @ newline @
     ''$upscope $end'' @ newline @
     ''$scope module mod2 $end'' @ newline @
     ''$var wire 1 root.mod2.ku ku $end'' @ newline @
     ''$scope module submod_c $end'' @ newline @
     ''$var wire 16 root.mod2.submod_c.ko ko $end'' @ newline @
     ''$upscope $end'' @ newline @
     ''$upscope $end'' @ newline @
     ''$upscope $end'' @ newline"

section \<open>Trace session\<close>

text \<open>
  A dumper function is the stub \<^verbatim>\<open>scope_fn::nop_dump\<close> or the closure made by a
  \<^verbatim>\<open>value\<close>, which captures \<^verbatim>\<open>this\<close>: the address of the signal. The signals live in a
  heap of objects; calling a closure whose object has been destroyed has no defined result
  (\<open>None\<close>).
\<close>

datatype dumper_fn = nop_dump | value_dumper nat

type_synonym heap = "nat \<Rightarrow> signal option"

definition invoke :: "dumper_fn \<Rightarrow> heap \<Rightarrow> bool \<Rightarrow> (string \<times> heap \<times> dump_sequence_t) option" where
  "invoke fn h start =
     (case fn of
        nop_dump \<Rightarrow> Some ([], h, end_sequence)
      | value_dumper a \<Rightarrow>
          (case h a of
             None \<Rightarrow> None
           | Some s \<Rightarrow>
               (case value_dump s start of
                  None \<Rightarrow> None
                | Some (txt, s', r) \<Rightarrow> Some (txt, h(a \<mapsto> s'), r))))"

text \<open>A \<^verbatim>\<open>std::map\<close> is the list of its entries in increasing key order.
  \<open>map_assign\<close> is \<^verbatim>\<open>m[k] = v\<close> and \<open>map_push_back\<close> is \<^verbatim>\<open>m[k].push_back(x)\<close>.\<close>

fun map_assign :: "'k::linorder \<Rightarrow> 'v \<Rightarrow> ('k \<times> 'v) list \<Rightarrow> ('k \<times> 'v) list" where
  "map_assign k v [] = [(k, v)]"
| "map_assign k v ((k', v') # m) =
     (if k < k' then (k, v) # (k', v') # m
      else if k = k' then (k, v) # m
      else (k', v') # map_assign k v m)"

fun map_push_back :: "'k::linorder \<Rightarrow> 'a \<Rightarrow> ('k \<times> 'a list) list \<Rightarrow> ('k \<times> 'a list) list" where
  "map_push_back k x [] = [(k, [x])]"
| "map_push_back k x ((k', xs) # m) =
     (if k < k' then (k, [x]) # (k', xs) # m
      else if k = k' then (k, xs @ [x]) # m
      else (k', xs) # map_push_back k x m)"

text \<open>
  The class \<^verbatim>\<open>top\<close> together with the heap of signals. \<^verbatim>\<open>_tracepoint\<close> and
  \<^verbatim>\<open>_timestamp\<close> are 64-bit unsigned; \<open>root_context\<close> is the \<^verbatim>\<open>_context\<close> pointer of the
  root module, null once the header has been finalized.
\<close>

record world =
  tracepoint :: sequence_t
  timestamp :: sequence_t
  generator :: identifier_generator
  identifier_map :: "(string \<times> string) list"
  dumper_map :: "(string \<times> dumper_fn) list"
  root_context :: "module_instance option"
  heap :: heap

text \<open>\<^verbatim>\<open>top::top(name)\<close>. The constructor leaves \<^verbatim>\<open>_tracepoint\<close> and \<^verbatim>\<open>_timestamp\<close>
  uninitialised: their contents are the arguments \<open>tp0\<close> and \<open>ts0\<close>.\<close>

definition top_ctor :: "string \<Rightarrow> sequence_t \<Rightarrow> sequence_t \<Rightarrow> world" where
  "top_ctor name tp0 ts0 =
     \<lparr> tracepoint = tp0, timestamp = ts0, generator = fresh_generator,
       identifier_map = [], dumper_map = [],
       root_context = Some (module_ctor name),
       heap = (\<lambda>a. None) \<rparr>"

text \<open>The registration closure that \<^verbatim>\<open>top::top\<close> hands to the root module. It returns the
  new identifier; the updater of the returned context is \<open>top_updater\<close> of that identifier.\<close>

definition top_register :: "world \<Rightarrow> string \<Rightarrow> dumper_fn \<Rightarrow> (string \<times> world) option" where
  "top_register w full_path fn =
     (case identifier_generator_next (generator w) of
        None \<Rightarrow> None
      | Some (ident, g) \<Rightarrow>
          Some (ident,
                w \<lparr> generator := g,
                    identifier_map := map_assign ident full_path (identifier_map w),
                    dumper_map := map_assign ident fn (dumper_map w) \<rparr>))"

text \<open>\<^verbatim>\<open>vcd_var_type<T>::value\<close> is \<open>wire\<close> for every element type of the model; only the
  floating-point types, which are not modelled, are declared as \<open>real\<close>.\<close>

definition vcd_var_type :: "elem_type \<Rightarrow> string" where
  "vcd_var_type T = ''wire''"

text \<open>A new signal object at address \<open>a\<close>, and a new module below the module at \<open>parent\<close>.\<close>

definition new_value :: "world \<Rightarrow> nat \<Rightarrow> signal option \<Rightarrow> world option" where
  "new_value w a made =
     (case made of None \<Rightarrow> None | Some s \<Rightarrow> Some (w \<lparr> heap := (heap w)(a \<mapsto> s) \<rparr>))"


text \<open>\<^verbatim>\<open>module::elaborate(var, var_name)\<close> for the module at \<open>p\<close> and the signal at \<open>a\<close>:
  \<^verbatim>\<open>elaborate_base\<close> stores the returned identifier and updater in the signal.\<close>

definition elaborate :: "world \<Rightarrow> module_path \<Rightarrow> nat \<Rightarrow> string \<Rightarrow> world option" where
  "elaborate w p a var_name =
     (case root_context w of
        None \<Rightarrow> None
      | Some root \<Rightarrow>
          (case heap w a of
             None \<Rightarrow> None
           | Some s \<Rightarrow>
               (case module_add_var top_register w root p var_name
                       (vcd_var_type (elem s)) (BIT_SIZE s) (value_dumper a) of
                  None \<Rightarrow> None
                | Some (ident, w', root') \<Rightarrow>
                    Some (w' \<lparr> root_context := Some root',
                               heap := (heap w')(a \<mapsto>
                                  s \<lparr> scope_identifier := ident,
                                      scope_updater := top_updater ident \<rparr>) \<rparr>))))"

text \<open>\<^verbatim>\<open>~value_base()\<close>: the updater stored in the signal is called with \<^verbatim>\<open>nop_dump\<close>, and
  the object is gone.\<close>

definition call_updater :: "updater_fn \<Rightarrow> dumper_fn \<Rightarrow> world \<Rightarrow> world" where
  "call_updater u fn w =
     (case u of
        nop_update \<Rightarrow> w
      | top_updater ident \<Rightarrow> w \<lparr> dumper_map := map_assign ident fn (dumper_map w) \<rparr>)"

definition destroy :: "world \<Rightarrow> nat \<Rightarrow> world option" where
  "destroy w a =
     (case heap w a of
        None \<Rightarrow> None
      | Some s \<Rightarrow>
          Some ((call_updater (scope_updater s) nop_dump w) \<lparr> heap := (heap w)(a := None) \<rparr>))"

text \<open>Calls of \<^verbatim>\<open>set\<close>, \<^verbatim>\<open>unknown\<close> and \<^verbatim>\<open>undriven\<close> on the signal at \<open>a\<close>, made
  while the shared counter has the value \<open>cur\<close>.\<close>

definition on_signal :: "(signal \<Rightarrow> signal) \<Rightarrow> nat \<Rightarrow> world \<Rightarrow> world option" where
  "on_signal f a w =
     (case heap w a of
        None \<Rightarrow> None
      | Some s \<Rightarrow> Some (w \<lparr> heap := (heap w)(a \<mapsto> f s) \<rparr>))"

text \<open>
  A signal registered once: the object at \<open>a\<close> is alive and holds the updater of the
  identifier \<open>ident\<close>, the registry is the entry list of a \<^verbatim>\<open>std::map\<close>, in increasing key
  order, and exactly one of its slots holds the closure of the signal: the slot of \<open>ident\<close>.
\<close>

definition registered_once :: "world \<Rightarrow> nat \<Rightarrow> string \<Rightarrow> bool" where
  "registered_once w a ident =
     ((case heap w a of None \<Rightarrow> False | Some s \<Rightarrow> scope_updater s = top_updater ident) \<and>
      sorted_wrt (<) (map fst (dumper_map w)) \<and>
      filter (\<lambda>e. snd e = value_dumper a) (dumper_map w) = [(ident, value_dumper a)])"

text \<open>\<^verbatim>\<open>top::log_time\<close>; the result is the text written and the session after the call.\<close>

definition log_time :: "world \<Rightarrow> sequence_t \<Rightarrow> bool \<Rightarrow> string \<times> world" where
  "log_time w new_time force =
     (if force \<or> new_time \<noteq> tracepoint w
      then (''#'' @ dec (unat new_time) @ newline, w \<lparr> tracepoint := new_time \<rparr>)
      else ([], w))"

text \<open>
  The first pass of \<^verbatim>\<open>top::time_update_core\<close> over the entries of \<^verbatim>\<open>dumper_map\<close>. The
  pair \<^verbatim>\<open>first_unset\<close>, \<^verbatim>\<open>first_sequence\<close> is an option: \<open>None\<close> while unset.
\<close>

fun first_pass ::
  "(string \<times> dumper_fn) list \<Rightarrow> heap \<Rightarrow> (sequence_t \<times> string list) list \<Rightarrow> sequence_t option
     \<Rightarrow> (string \<times> heap \<times> (sequence_t \<times> string list) list \<times> sequence_t option) option" where
  "first_pass [] h status first = Some ([], h, status, first)"
| "first_pass ((ident, dump_fn) # entries) h status first =
     (case invoke dump_fn h True of
        None \<Rightarrow> None
      | Some (txt, h', sequence) \<Rightarrow>
          (let status' = (case next_sequence sequence of
                            Some n \<Rightarrow> map_push_back n ident status
                          | None \<Rightarrow> status);
               first' = (case dumped sequence of
                           Some d \<Rightarrow>
                             (case first of
                                None \<Rightarrow> Some d
                              | Some f \<Rightarrow> if f > d then Some d else Some f)
                         | None \<Rightarrow> first)
           in case first_pass entries h' status' first' of
                None \<Rightarrow> None
              | Some (txt', res) \<Rightarrow> Some (txt @ txt', res)))"

text \<open>
  The inner loop of the second pass over the identifiers of one bucket.
  \<^verbatim>\<open>dumper_map[identifier]\<close> on an identifier that is not a key would insert an empty
  \<^verbatim>\<open>std::function\<close>, whose call throws: \<open>None\<close>.
\<close>

fun bucket_loop ::
  "(string \<times> dumper_fn) list \<Rightarrow> string list \<Rightarrow> heap \<Rightarrow> (sequence_t \<times> string list) list
     \<Rightarrow> (string \<times> heap \<times> (sequence_t \<times> string list) list) option" where
  "bucket_loop dm [] h status = Some ([], h, status)"
| "bucket_loop dm (ident # identifiers) h status =
     (case map_of dm ident of
        None \<Rightarrow> None
      | Some dump_fn \<Rightarrow>
          (case invoke dump_fn h False of
             None \<Rightarrow> None
           | Some (txt, h', done_sequence) \<Rightarrow>
               (let status' = (case next_sequence done_sequence of
                                 Some n \<Rightarrow> map_push_back n ident status
                               | None \<Rightarrow> status)
                in case bucket_loop dm identifiers h' status' of
                     None \<Rightarrow> None
                   | Some (txt', res) \<Rightarrow> Some (txt @ txt', res))))"

text \<open>The number of samples a signal still has to hand out, and the measure under which
  the second pass ends: every call that returns a next sequence uses up one of them.\<close>

definition pending_count :: "signal \<Rightarrow> nat" where
  "pending_count s =
     (if TRACE_DEPTH s = 1 then 0 else nat (idx_write s + 1 - int (idx_read s)))"

definition dumper_pending :: "heap \<Rightarrow> dumper_fn \<Rightarrow> nat" where
  "dumper_pending h fn =
     (case fn of
        nop_dump \<Rightarrow> 0
      | value_dumper a \<Rightarrow> (case h a of None \<Rightarrow> 0 | Some s \<Rightarrow> pending_count s))"

definition status_size :: "(sequence_t \<times> string list) list \<Rightarrow> nat" where
  "status_size status = sum_list (map (\<lambda>b. Suc (length (snd b))) status)"

definition drain_measure ::
  "(string \<times> dumper_fn) list \<Rightarrow> heap \<Rightarrow> (sequence_t \<times> string list) list \<Rightarrow> nat" where
  "drain_measure dm h status =
     3 * sum_list (map (\<lambda>e. dumper_pending h (snd e)) dm) + status_size status"

text \<open>
  The second pass of \<^verbatim>\<open>top::time_update_core\<close>. Each round copies the first entry of
  \<^verbatim>\<open>status\<close>, logs its time, runs the inner loop, which may add entries, and then erases
  whatever entry is first at that moment.
\<close>

function second_pass ::
  "world \<Rightarrow> (sequence_t \<times> string list) list \<Rightarrow> sequence_t option \<Rightarrow> (string \<times> world) option" where
  "second_pass w status first =
     (case status of
        [] \<Rightarrow> Some ([], w)
      | (sequence, identifiers) # _ \<Rightarrow>
          (let first_sequence = (case first of None \<Rightarrow> sequence | Some f \<Rightarrow> f);
               delta = sequence - first_sequence;
               logged = log_time w (timestamp w + delta) False;
               w1 = snd logged
           in case bucket_loop (dumper_map w1) identifiers (heap w1) status of
                None \<Rightarrow> None
              | Some (txt, h, status') \<Rightarrow>
                  (case second_pass (w1 \<lparr> heap := h \<rparr>) (tl status') (Some first_sequence) of
                     None \<Rightarrow> None
                   | Some (txt', w') \<Rightarrow> Some (fst logged @ txt @ txt', w'))))"
  by pat_completeness auto

definition time_update_core :: "world \<Rightarrow> (string \<times> world) option" where
  "time_update_core w =
     (case first_pass (dumper_map w) (heap w) [] None of
        None \<Rightarrow> None
      | Some (txt, h, status, first) \<Rightarrow>
          (case second_pass (w \<lparr> heap := h \<rparr>) status first of
             None \<Rightarrow> None
           | Some (txt', w') \<Rightarrow> Some (txt @ txt', w')))"

definition STATIC_VCD_HEADER :: string where
  "STATIC_VCD_HEADER =
     ''$version'' @ newline @ ''   C++ Simple VCD Logger'' @ newline @ ''$end'' @ newline"

text \<open>\<^verbatim>\<open>top::finalize_header\<close>; \<open>date_text\<close> is what \<^verbatim>\<open>std::asctime\<close> returns for the date,
  with its line end.\<close>

definition top_finalize_header :: "world \<Rightarrow> string \<Rightarrow> (string \<times> world) option" where
  "top_finalize_header w date_text =
     (let banner = ''$date'' @ newline @ ''   '' @ date_text @ ''$end'' @ newline
                   @ ''$timescale'' @ newline @ ''   1'' @ ''ns'' @ newline @ ''$end'' @ newline
                   @ STATIC_VCD_HEADER;
          hierarchy = (case root_context w of
                         None \<Rightarrow> []
                       | Some context \<Rightarrow> finalize_header_context context);
          w1 = w \<lparr> root_context := None \<rparr>;
          logged = log_time w1 0 True;
          w2 = (snd logged) \<lparr> timestamp := 0 \<rparr>
      in case time_update_core w2 of
           None \<Rightarrow> None
         | Some (txt, w3) \<Rightarrow>
             Some (banner @ hierarchy @ ''$enddefinitions $end'' @ newline @ fst logged @ txt,
                   w3))"

text \<open>
  The time arguments are \<^verbatim>\<open>std::chrono::nanoseconds\<close>, whose count is a signed 64-bit
  integer: the argument is the 64-bit two's complement word of the count and \<open>sint\<close> reads
  its value. \<^verbatim>\<open>_timestamp += delta_count\<close> adds modulo \<open>2 ^ 64\<close>.
\<close>

definition time_update_delta :: "world \<Rightarrow> 64 word \<Rightarrow> (string \<times> world) option" where
  "time_update_delta w delta =
     (case time_update_core w of
        None \<Rightarrow> None
      | Some (txt, w1) \<Rightarrow>
          (let w2 = w1 \<lparr> timestamp := timestamp w1 + delta \<rparr>;
               w3 = (if timestamp w2 \<le> tracepoint w2
                     then w2 \<lparr> timestamp := tracepoint w2 \<rparr> else w2);
               logged = log_time w3 (timestamp w3) False
           in Some (txt @ fst logged, snd logged)))"

text \<open>
  In \<^verbatim>\<open>time_update_abs\<close> the comparison \<^verbatim>\<open>new_timestamp_count >= _timestamp\<close> is between
  a signed and an unsigned 64-bit operand and is made on the unsigned values; the comparison
  with \<^verbatim>\<open>static_cast<long int>(_tracepoint)\<close> is made on the signed values.
\<close>

definition time_update_abs :: "world \<Rightarrow> 64 word \<Rightarrow> (string \<times> world) option" where
  "time_update_abs w new_timestamp =
     (case time_update_core w of
        None \<Rightarrow> None
      | Some (txt, w1) \<Rightarrow>
          (if timestamp w1 \<le> new_timestamp
           then
             (let new_timestamp_count =
                    (if sint new_timestamp \<le> sint (tracepoint w1)
                     then tracepoint w1 else new_timestamp);
                  w2 = w1 \<lparr> timestamp := new_timestamp_count \<rparr>;
                  logged = log_time w2 (timestamp w2) False
              in Some (txt @ fst logged, snd logged))
           else Some (txt, w1)))"

definition finalize_trace :: "world \<Rightarrow> (string \<times> world) option" where
  "finalize_trace w =
     (case time_update_delta w 1 of
        None \<Rightarrow> None
      | Some (txt, w1) \<Rightarrow>
          (case time_update_delta w1 1000 of
             None \<Rightarrow> None
           | Some (txt', w2) \<Rightarrow> Some (txt @ txt', w2)))"

subsection \<open>Example sessions\<close>

text \<open>
  A session with one signal \<^verbatim>\<open>value<int, 9, 10, &seq>\<close>, at address 1, elaborated in the
  root module as \<open>ka\<close>, after \<^verbatim>\<open>finalize_header\<close>: the signal has the identifier \<open>!\<close>.
\<close>

definition asctime_epoch :: string where
  "asctime_epoch = ''Thu Jan  1 00:00:00 1970'' @ newline"

definition one_signal_session :: "world option" where
  "one_signal_session =
     Option.bind (new_value (top_ctor ''root'' 7 9) 1
                    (value_ctor (T_integral True 32) 9 10 True 42 False None 0)) (\<lambda>w.
     Option.bind (elaborate w [] 1 ''ka'') (\<lambda>w.
     map_option snd (top_finalize_header w asctime_epoch)))"

text \<open>
  \<^verbatim>\<open>time_update_delta(5ns)\<close>, then \<^verbatim>\<open>set(1)\<close> at sequence 42 and \<^verbatim>\<open>set(2)\<close> at
  sequence 43, then \<^verbatim>\<open>time_update_abs(3ns)\<close>, a time behind the clock. The result is the
  text written by the two time updates and the session after them.
\<close>

definition backwards_abs_run :: "(string \<times> world) option" where
  "backwards_abs_run =
     Option.bind one_signal_session (\<lambda>w.
     Option.bind (time_update_delta w 5) (\<lambda>(out1, w).
     Option.bind (on_signal (value_set 42 1) 1 w) (\<lambda>w.
     Option.bind (on_signal (value_set 43 2) 1 w) (\<lambda>w.
     Option.bind (time_update_abs w 3) (\<lambda>(out2, w).
     Some (out1 @ out2, w))))))"

text \<open>After that, \<^verbatim>\<open>set(3)\<close> at sequence 44.\<close>

definition after_backwards_abs :: "world option" where
  "after_backwards_abs =
     Option.bind backwards_abs_run (\<lambda>(out, w). on_signal (value_set 44 3) 1 w)"

text \<open>And then \<^verbatim>\<open>time_update_abs(7ns)\<close>: the text of all three time updates.\<close>

definition rewind_run :: "(string \<times> world) option" where
  "rewind_run =
     Option.bind backwards_abs_run (\<lambda>(out, w).
     Option.bind (on_signal (value_set 44 3) 1 w) (\<lambda>w.
     Option.bind (time_update_abs w 7) (\<lambda>(out3, w).
     Some (out @ out3, w))))"

text \<open>The one-signal session with \<^verbatim>\<open>set(1)\<close> at sequence 42 and \<^verbatim>\<open>set(2)\<close> at sequence
  43 pending.\<close>

definition two_pending :: "world option" where
  "two_pending =
     Option.bind one_signal_session (\<lambda>w.
     Option.bind (on_signal (value_set 42 1) 1 w) (\<lambda>w.
     on_signal (value_set 43 2) 1 w))"




text \<open>The signal of the one-signal session, constructed and not yet elaborated.\<close>

definition one_signal_created :: "world option" where
  "one_signal_created =
     new_value (top_ctor ''root'' 7 9) 1
       (value_ctor (T_integral True 32) 9 10 True 42 False None 0)"

text \<open>That signal elaborated twice in the root module, as \<open>ka\<close> and as \<open>kb\<close>, before
  \<^verbatim>\<open>finalize_header\<close>.\<close>

definition elaborated_twice :: "world option" where
  "elaborated_twice =
     Option.bind one_signal_created (\<lambda>w.
     Option.bind (elaborate w [] 1 ''ka'') (\<lambda>w.
     Option.bind (elaborate w [] 1 ''kb'') (\<lambda>w.
     map_option snd (top_finalize_header w asctime_epoch))))"

text \<open>
  The one-signal session with two samples pending, the signal destroyed, and then a call
  of the closure that the signal handed over at its registration: the text the call writes,
  \<open>None\<close> where the call has no defined result.
\<close>

definition held_copy_after_destroy :: "string option option" where
  "held_copy_after_destroy =
     Option.bind two_pending (\<lambda>w.
     Option.bind (destroy w 1) (\<lambda>w'.
     Some (map_option fst (invoke (value_dumper 1) (heap w') True))))"

section \<open>The merge in the words of the specification\<close>





text \<open>The addresses held by the closures of a registry.\<close>

fun dumper_addresses :: "(string \<times> dumper_fn) list \<Rightarrow> nat list" where
  "dumper_addresses [] = []"
| "dumper_addresses ((ident, nop_dump) # dm) = dumper_addresses dm"
| "dumper_addresses ((ident, value_dumper a) # dm) = a # dumper_addresses dm"














section \<open>Identifier generator: results\<close>

lemma GenerateVcdKey_0: "GenerateVcdKey 0 = Some ''!''"
  by code_simp

lemma GenerateVcdKey_8: "GenerateVcdKey 8 = Some '')''"
  by code_simp

lemma GenerateVcdKey_89: "GenerateVcdKey 89 = Some ''z''"
  by code_simp

lemma GenerateVcdKey_90: "GenerateVcdKey 90 = Some ''!!''"
  by code_simp

lemma GenerateVcdKey_91: "GenerateVcdKey 91 = Some [CHR ''!'', CHR 0x22]"
  by code_simp

lemma GenerateVcdKey_179: "GenerateVcdKey 179 = Some ''!z''"
  by code_simp

lemma GenerateVcdKey_180: "GenerateVcdKey 180 = Some [CHR 0x22, CHR ''!'']"
  by code_simp

text \<open>
  Claim C3. Starting from a fresh identifier generator, the calls numbered 0, 8, 89, 90,
  91, 179 and 180 of \<^verbatim>\<open>next()\<close> return the identifiers \<open>!\<close>, \<open>)\<close>, \<open>z\<close>, \<open>!!\<close>,
  bang then double quote, \<open>!z\<close>, and double quote then bang: the last symbol runs through
  the range, wraps to the first symbol and carries into a new position.
\<close>

theorem identifier_generator_test_vectors:
  "GenerateVcdKey 0 = Some ''!'' \<and>
   GenerateVcdKey 8 = Some '')'' \<and>
   GenerateVcdKey 89 = Some ''z'' \<and>
   GenerateVcdKey 90 = Some ''!!'' \<and>
   GenerateVcdKey 91 = Some [CHR ''!'', CHR 0x22] \<and>
   GenerateVcdKey 179 = Some ''!z'' \<and>
   GenerateVcdKey 180 = Some [CHR 0x22, CHR ''!'']"
  using GenerateVcdKey_0 GenerateVcdKey_8 GenerateVcdKey_89 GenerateVcdKey_90
    GenerateVcdKey_91 GenerateVcdKey_179 GenerateVcdKey_180
  by blast


section \<open>Value encoder: results\<close>

lemma and_pow2_bit: "((v::int) AND 2 ^ n \<noteq> 0) = bit v n"
  using bit_iff_and_push_bit_not_eq_0 [of v n] by simp

lemma convert_pow2:
  assumes "representable sg w n"
  shows "convert sg w (2 ^ n) = 2 ^ n"
proof (cases sg)
  case True
  then have "n < w - 1" using assms by (simp add: representable_def)
  then have "(2::int) ^ n < 2 ^ (w - 1)" by simp
  moreover have "- (2 ^ (w - 1)) \<le> (2::int) ^ n"
    by (smt (verit) zero_less_power)
  ultimately show ?thesis using True
    by (simp add: convert_def signed_take_bit_int_eq_self)
next
  case False
  then have "n < w" using assms by (simp add: representable_def)
  then have "(2::int) ^ n < 2 ^ w" by simp
  then show ?thesis using False
    by (simp add: convert_def take_bit_int_eq_self)
qed

lemma shift_mask_pow2:
  "representable sg w n \<Longrightarrow> shift_mask sg w (2 ^ Suc n) = 2 ^ n"
  by (simp add: shift_mask_def drop_bit_eq_div convert_pow2)

lemma bits_msb_first_Suc: "bits_msb_first (Suc n) v = bit v n # bits_msb_first n v"
  by (simp add: bits_msb_first_def)

text \<open>While the mask is a single bit, the loop reads the bits of the value one by one.\<close>

lemma dump_bits_pow2:
  "representable sg w n \<Longrightarrow>
   dump_bits n sg w (2 ^ n) v prev compress =
     bit_string (prev # (if compress then dropWhile (\<lambda>x. x = prev) (bits_msb_first n v)
                         else bits_msb_first n v))"
proof (induction n arbitrary: prev compress)
  case 0
  then show ?case by (simp add: bits_msb_first_def bit_string_def)
next
  case (Suc n)
  have r: "representable sg w n"
    using Suc.prems by (auto simp: representable_def split: if_splits)
  have s: "shift_mask sg w (2 * 2 ^ n) = 2 ^ n"
    using shift_mask_pow2 [OF r] by simp
  show ?case
    using Suc.IH [OF r]
    by (simp add: s and_pow2_bit bits_msb_first_Suc Let_def bit_string_def)
qed

lemma initial_mask_pow2:
  assumes "representable sg w n"
  shows "initial_mask sg w (Suc n) = Some (2 ^ n)"
proof -
  have "representable (promoted_signed sg w) (promoted_width w) n"
    using assms
    by (auto simp: representable_def promoted_signed_def promoted_width_def split: if_splits)
  moreover have "n < promoted_width w"
    using assms by (auto simp: representable_def promoted_width_def split: if_splits)
  ultimately show ?thesis using assms
    by (simp add: initial_mask_def convert_pow2)
qed

lemma value_base_dump_known:
  assumes "0 < bit_size" "if sg then bit_size < w else bit_size \<le> w"
  shows "value_base_dump (T_integral sg w) ident bit_size known v =
     Some (''b'' @ bit_string (compact_leading_run (bits_msb_first bit_size v))
           @ '' '' @ ident @ newline)"
proof -
  obtain n where n: "bit_size = Suc n"
    using assms(1) by (cases bit_size) auto
  have r: "representable sg w n"
    using assms(2) n by (auto simp: representable_def split: if_splits)
  show ?thesis
    by (simp add: value_base_dump_def n initial_mask_pow2 [OF r] dump_bits_pow2 [OF r]
        and_pow2_bit bits_msb_first_Suc)
qed

lemma compact_0x1DEAD:
  "bit_string (compact_leading_run (bits_msb_first 17 0x1DEAD)) = ''101111010101101''"
  by code_simp

lemma compact_0x155:
  "bit_string (compact_leading_run (bits_msb_first 9 0x155)) = ''101010101''"
  by code_simp

text \<open>
  Claim C4, as amended. For every signal of an integer element type other than \<^verbatim>\<open>bool\<close>
  whose bit width is greater than 1 and, for an unsigned type, at most the width of the type,
  for a signed type, less than it: an Unknown sample is encoded as \<open>b\<close>, \<open>x\<close>, a space and
  the identifier, an Undriven sample as \<open>b\<close>, \<open>z\<close>, a space and the identifier, and a Known
  value as \<open>b\<close>, then the bits of the value, most significant first, with the leading run
  of bits equal to the first collapsed to one copy, then a space and the identifier. The
  17-bit value 0x1DEAD of an \<^verbatim>\<open>unsigned int\<close> signal is encoded as \<open>b101111010101101\<close>.
\<close>

theorem vector_encoding:
  "(1 < bit_size \<and> (if sg then bit_size < w else bit_size \<le> w) \<longrightarrow>
      value_base_dump (T_integral sg w) ident bit_size unknown_x v
        = Some (''bx '' @ ident @ newline) \<and>
      value_base_dump (T_integral sg w) ident bit_size undriven_z v
        = Some (''bz '' @ ident @ newline) \<and>
      value_base_dump (T_integral sg w) ident bit_size known v
        = Some (''b'' @ bit_string (compact_leading_run (bits_msb_first bit_size v))
                @ '' '' @ ident @ newline)) \<and>
   value_base_dump (T_integral False 32) ident 17 known 0x1DEAD
     = Some (''b101111010101101 '' @ ident @ newline)"
proof -
  have "value_base_dump (T_integral False 32) ident 17 known 0x1DEAD
     = Some (''b101111010101101 '' @ ident @ newline)"
    using value_base_dump_known [of 17 False 32 ident "0x1DEAD"] compact_0x1DEAD by simp
  moreover have "value_base_dump (T_integral sg w) ident bit_size unknown_x v
        = Some (''bx '' @ ident @ newline)"
    by (simp add: value_base_dump_def)
  moreover have "value_base_dump (T_integral sg w) ident bit_size undriven_z v
        = Some (''bz '' @ ident @ newline)"
    by (simp add: value_base_dump_def)
  ultimately show ?thesis
    using value_base_dump_known [of bit_size sg w ident v] by simp
qed

theorem vector_encoding_witness:
  "(1::nat) < 9 \<and> (9::nat) < 32 \<and>
   value_base_dump (T_integral True 32) ''vv'' 9 known 0x155 = Some (''b101010101 vv'' @ newline)"
  using vector_encoding [of 9 True 32 "''vv''" "0x155"] compact_0x155 by simp

text \<open>The claim as written speaks of every signal of bit width greater than 1: a
  \<^verbatim>\<open>bool\<close> signal declared two bits wide is still encoded as a scalar.\<close>

theorem vector_encoding_counterexample:
  "value_base_dump T_bool ''!'' 2 unknown_x 0 = Some (''x!'' @ newline) \<and>
   value_base_dump T_bool ''!'' 2 unknown_x 0 \<noteq> Some (''bx !'' @ newline)"
  by (simp add: value_base_dump_def)

text \<open>For a signed type used at its full width the mask starts at the sign bit and the
  arithmetic shift keeps the sign bit set in every later mask: once a set bit has been read,
  every lower bit reads as set. A 32-bit \<^verbatim>\<open>int\<close> signal holding 2 is written as \<open>b011\<close>.\<close>

lemma signed_full_width_dump:
  "value_base_dump (T_integral True 32) ''!'' 32 known 2 = Some (''b011 !'' @ newline)"
  by code_simp

text \<open>With bit width 1 the vector form has one digit: the lowest bit of the value.\<close>

lemma one_bit_integral_known:
  assumes "1 < w"
  shows "value_base_dump (T_integral sg w) ident 1 known v
           = Some (''b'' @ bit_char (bit v 0) @ '' '' @ ident @ newline)"
proof -
  have "if sg then (1::nat) < w else 1 \<le> w" using assms by simp
  from value_base_dump_known [OF _ this, of ident v] show ?thesis
    by (simp add: bits_msb_first_def bit_string_def)
qed

text \<open>
  Claim C5, as amended. For every signal whose element type is \<^verbatim>\<open>bool\<close>, whatever its bit
  width, encoding a sample emits exactly one character, \<open>1\<close> for Known(true), \<open>0\<close> for
  Known(false), \<open>x\<close> for Unknown and \<open>z\<close> for Undriven, immediately followed by the
  identifier with no separator. A signal of an integer element type other than
  \<^verbatim>\<open>bool\<close> with bit width 1 is encoded in the vector form: \<open>b\<close>, then \<open>x\<close> for Unknown,
  \<open>z\<close> for Undriven or, the type being wider than one bit, the lowest bit of a Known value,
  then a space and the identifier.
\<close>

theorem scalar_encoding:
  "value_base_dump T_bool ident bit_size known 1 = Some (''1'' @ ident @ newline) \<and>
   value_base_dump T_bool ident bit_size known 0 = Some (''0'' @ ident @ newline) \<and>
   value_base_dump T_bool ident bit_size unknown_x v = Some (''x'' @ ident @ newline) \<and>
   value_base_dump T_bool ident bit_size undriven_z v = Some (''z'' @ ident @ newline) \<and>
   value_base_dump (T_integral sg w) ident 1 unknown_x v = Some (''bx '' @ ident @ newline) \<and>
   value_base_dump (T_integral sg w) ident 1 undriven_z v = Some (''bz '' @ ident @ newline) \<and>
   (1 < w \<longrightarrow>
      value_base_dump (T_integral sg w) ident 1 known v
        = Some (''b'' @ bit_char (bit v 0) @ '' '' @ ident @ newline))"
  using one_bit_integral_known [of w sg ident v] by (simp add: value_base_dump_def)

theorem scalar_encoding_witness:
  "(1::nat) < 8 \<and>
   value_base_dump (T_integral True 8) ''#'' 1 known (- 3) = Some (''b1 #'' @ newline)"
  using scalar_encoding [where w = 8 and sg = True and ident = "''#''" and v = "- 3"]
  by (simp add: bit_char_def)

text \<open>The claim as written covers every element type: an \<^verbatim>\<open>unsigned int\<close> signal of
  bit width 1 is encoded in the vector form.\<close>

theorem scalar_encoding_counterexample:
  "value_base_dump (T_integral False 32) ''!'' 1 known 1 = Some (''b1 !'' @ newline) \<and>
   value_base_dump (T_integral False 32) ''!'' 1 known 1 \<noteq> Some (''1!'' @ newline)"
  by (simp add: value_base_dump_def initial_mask_def promoted_width_def promoted_signed_def
      convert_def bit_char_def)


section \<open>Buffered signals: results\<close>

lemma full_example_reached:
  "map_option (\<lambda>s. value_set 43 2 (value_set 42 1 (s \<lparr> scope_identifier := ''!'' \<rparr>)))
     (value_ctor (T_integral True 32) 9 2 True 42 True None g) = Some full_example"
  by (simp add: value_ctor_def value_set_def full_example_def write_slot_def sample_set_def
      sample_changed_def Let_def numeral_2_eq_2)

lemma dump_sample_same: "same_slots s s' \<Longrightarrow> dump_sample s' i = dump_sample s i"
  by (simp add: same_slots_def dump_sample_def)

lemma value_dump_same_slots:
  "value_dump s start = Some (txt, s', r) \<Longrightarrow> same_slots s s'"
  by (auto simp: value_dump_def same_slots_def Let_def split: if_splits option.splits)

lemma value_dump_text:
  assumes "value_dump s start = Some (txt, s', r)" "0 < TRACE_DEPTH s"
  shows "txt = [] \<or> (\<exists>i<TRACE_DEPTH s. dump_sample s i = Some txt)"
  using assms
  by (auto simp: value_dump_def Let_def dump_sample_def split: if_splits option.splits)

text \<open>Whatever a run of dump calls writes is the encoding of a stored slot.\<close>

lemma dump_run_text:
  "dump_run s' starts = Some txts \<Longrightarrow> same_slots s s' \<Longrightarrow> 0 < TRACE_DEPTH s \<Longrightarrow>
   txt \<in> set txts \<Longrightarrow> txt = [] \<or> (\<exists>i<TRACE_DEPTH s. dump_sample s i = Some txt)"
proof (induction starts arbitrary: s' txts)
  case Nil
  then show ?case by simp
next
  case (Cons start starts)
  from Cons.prems(1) obtain t s'' r rest where
    d: "value_dump s' start = Some (t, s'', r)" and
    rest: "dump_run s'' starts = Some rest" and txts: "txts = t # rest"
    by (auto split: option.splits)
  have ss: "same_slots s s''"
    using value_dump_same_slots [OF d] Cons.prems(2) by (simp add: same_slots_def)
  show ?case
  proof (cases "txt = t")
    case True
    have "0 < TRACE_DEPTH s'" using Cons.prems(2,3) by (simp add: same_slots_def)
    from value_dump_text [OF d this] show ?thesis
      using True Cons.prems(2) dump_sample_same [OF Cons.prems(2)]
      by (auto simp: same_slots_def)
  next
    case False
    then have "txt \<in> set rest" using Cons.prems(4) txts by simp
    from Cons.IH [OF rest ss Cons.prems(3) this] show ?thesis .
  qed
qed

lemma buffer_full_cases:
  assumes "buffer_full cur s"
  obtains (last_slot) "TRACE_DEPTH s \<noteq> 1" "idx_write s \<noteq> - 1"
      "idx_write s < int (TRACE_DEPTH s)"
      "sample_sequence (samples s ! write_slot s) \<noteq> cur"
      "idx_write s + 1 = int (TRACE_DEPTH s)"
  | (past_end) "TRACE_DEPTH s \<noteq> 1" "idx_write s \<noteq> - 1"
      "\<not> idx_write s < int (TRACE_DEPTH s)"
  using assms unfolding buffer_full_def by fastforce

lemma value_set_full:
  assumes "buffer_full cur s"
  shows "value_set cur v s = s \<or>
         value_set cur v s = s \<lparr> idx_write := int (TRACE_DEPTH s) \<rparr>"
  using assms
proof (cases rule: buffer_full_cases)
  case last_slot
  then show ?thesis by (simp add: value_set_def Let_def)
next
  case past_end
  then show ?thesis by (simp add: value_set_def)
qed

lemma value_set_state_full:
  assumes "buffer_full cur s"
  shows "value_set_state cur S s = s \<or>
         value_set_state cur S s = s \<lparr> idx_write := int (TRACE_DEPTH s) \<rparr>"
  using assms
proof (cases rule: buffer_full_cases)
  case last_slot
  then show ?thesis by (simp add: value_set_state_def Let_def)
next
  case past_end
  then show ?thesis by (simp add: value_set_state_def)
qed

lemma full_same_slots:
  "s' = s \<or> s' = s \<lparr> idx_write := n \<rparr> \<Longrightarrow> same_slots s s'"
  by (auto simp: same_slots_def)

lemma buffer_full_example: "buffer_full 44 full_example"
  by (simp add: buffer_full_def full_example_def write_slot_def)

text \<open>With \<open>D\<close> samples pending and the counter still at the sequence of the last slot, a
  call with a different value or state rewrites that slot and nothing else.\<close>

lemma last_slot_overwritten_set:
  assumes "1 < TRACE_DEPTH s" "idx_write s = int (TRACE_DEPTH s) - 1"
    "sample_sequence (samples s ! write_slot s) = cur"
    "sample_changed v (sample_value (samples s ! write_slot s)) \<or>
     sample_state (samples s ! write_slot s) \<noteq> known"
  shows "value_set cur v s =
     s \<lparr> samples := (samples s)[write_slot s :=
            sample_set (CUR_SEQ s) cur v (samples s ! write_slot s)] \<rparr>"
proof -
  have a: "TRACE_DEPTH s \<noteq> 1" "idx_write s \<noteq> - 1" "idx_write s < int (TRACE_DEPTH s)"
    using assms(1,2) by auto
  show ?thesis using a assms(3,4) by (simp add: value_set_def Let_def)
qed

lemma last_slot_overwritten_state:
  assumes "1 < TRACE_DEPTH s" "idx_write s = int (TRACE_DEPTH s) - 1"
    "sample_sequence (samples s ! write_slot s) = cur"
    "sample_state (samples s ! write_slot s) \<noteq> S"
  shows "value_set_state cur S s =
     s \<lparr> samples := (samples s)[write_slot s :=
            sample_set_state (CUR_SEQ s) cur S (samples s ! write_slot s)] \<rparr>"
proof -
  have a: "TRACE_DEPTH s \<noteq> 1" "idx_write s \<noteq> - 1" "idx_write s < int (TRACE_DEPTH s)"
    using assms(1,2) by auto
  show ?thesis using a assms(3,4) by (simp add: value_set_state_def Let_def)
qed

text \<open>
  Claim C7, as amended. For every buffered signal of capacity \<open>D > 1\<close>, once \<open>D\<close> samples
  are pending and the sequence counter has moved past the sequence of the most recent slot
  (or an earlier call has already been dropped), every further \<^verbatim>\<open>set\<close>, \<^verbatim>\<open>unknown\<close> or
  \<^verbatim>\<open>undriven\<close> call is dropped: the call returns normally, the \<open>D\<close> stored samples are
  unchanged, and every value line that later dump calls write is the encoding of one of
  those \<open>D\<close> samples. A call made while \<open>D\<close> samples are pending and the counter still
  equals the sequence of the last slot, with a value or state that differs from that
  slot's, overwrites that slot with the new value or state and changes nothing else.
\<close>

theorem full_buffer_drops_writes:
  "(buffer_full cur s \<longrightarrow>
     (\<forall>s' \<in> {value_set cur v s, value_unknown cur s, value_undriven cur s}.
        samples s' = samples s \<and>
        (\<forall>starts txts. dump_run s' starts = Some txts \<longrightarrow>
           (\<forall>txt \<in> set txts.
              txt = [] \<or> (\<exists>i<TRACE_DEPTH s. dump_sample s i = Some txt))))) \<and>
   (1 < TRACE_DEPTH s \<and> idx_write s = int (TRACE_DEPTH s) - 1 \<and>
    sample_sequence (samples s ! write_slot s) = cur \<longrightarrow>
      (sample_changed v (sample_value (samples s ! write_slot s)) \<or>
       sample_state (samples s ! write_slot s) \<noteq> known \<longrightarrow>
         value_set cur v s =
           s \<lparr> samples := (samples s)[write_slot s :=
                  sample_set (CUR_SEQ s) cur v (samples s ! write_slot s)] \<rparr>) \<and>
      (sample_state (samples s ! write_slot s) \<noteq> S \<longrightarrow>
         value_set_state cur S s =
           s \<lparr> samples := (samples s)[write_slot s :=
                  sample_set_state (CUR_SEQ s) cur S (samples s ! write_slot s)] \<rparr>))"
proof (intro conjI impI ballI)
  fix s'
  assume f: "buffer_full cur s"
    and s': "s' \<in> {value_set cur v s, value_unknown cur s, value_undriven cur s}"
  have ss: "same_slots s s'"
    using s' value_set_full [OF f, of v] value_set_state_full [OF f]
      full_same_slots [of s' s "int (TRACE_DEPTH s)"]
    by (auto simp: value_unknown_def value_undriven_def)
  have d: "0 < TRACE_DEPTH s" using f by (simp add: buffer_full_def)
  show "samples s' = samples s"
    using ss by (simp add: same_slots_def)
  show "\<forall>starts txts. dump_run s' starts = Some txts \<longrightarrow>
           (\<forall>txt \<in> set txts.
              txt = [] \<or> (\<exists>i<TRACE_DEPTH s. dump_sample s i = Some txt))"
    using ss dump_run_text [OF _ ss d] by (auto simp: same_slots_def)
next
  assume "1 < TRACE_DEPTH s \<and> idx_write s = int (TRACE_DEPTH s) - 1 \<and>
          sample_sequence (samples s ! write_slot s) = cur"
    and "sample_changed v (sample_value (samples s ! write_slot s)) \<or>
         sample_state (samples s ! write_slot s) \<noteq> known"
  then show "value_set cur v s =
           s \<lparr> samples := (samples s)[write_slot s :=
                  sample_set (CUR_SEQ s) cur v (samples s ! write_slot s)] \<rparr>"
    using last_slot_overwritten_set [of s cur v] by blast
next
  assume "1 < TRACE_DEPTH s \<and> idx_write s = int (TRACE_DEPTH s) - 1 \<and>
          sample_sequence (samples s ! write_slot s) = cur"
    and "sample_state (samples s ! write_slot s) \<noteq> S"
  then show "value_set_state cur S s =
           s \<lparr> samples := (samples s)[write_slot s :=
                  sample_set_state (CUR_SEQ s) cur S (samples s ! write_slot s)] \<rparr>"
    using last_slot_overwritten_state [of s cur S] by blast
qed

lemma full_example_dropped_run:
  "dump_run (value_set 44 3 full_example) [True, False, False]
     = Some [[], ''b01 !'' @ newline, ''b010 !'' @ newline]"
  by code_simp

lemma full_example_last_slot:
  "1 < TRACE_DEPTH full_example \<and>
   idx_write full_example = int (TRACE_DEPTH full_example) - 1 \<and>
   sample_sequence (samples full_example ! write_slot full_example) = 43 \<and>
   sample_changed 3 (sample_value (samples full_example ! write_slot full_example)) \<and>
   sample_state (samples full_example ! write_slot full_example) \<noteq> unknown_x"
  by (simp add: full_example_def write_slot_def sample_changed_def)

theorem full_buffer_drops_writes_witness:
  "buffer_full 44 full_example \<and>
   samples (value_set 44 3 full_example) = samples full_example \<and>
   dump_run (value_set 44 3 full_example) [True, False, False]
     = Some [[], ''b01 !'' @ newline, ''b010 !'' @ newline] \<and>
   (\<exists>i<TRACE_DEPTH full_example. dump_sample full_example i = Some (''b01 !'' @ newline)) \<and>
   (\<exists>i<TRACE_DEPTH full_example. dump_sample full_example i = Some (''b010 !'' @ newline)) \<and>
   idx_write full_example = int (TRACE_DEPTH full_example) - 1 \<and>
   sample_sequence (samples full_example ! write_slot full_example) = 43 \<and>
   samples (value_set 43 3 full_example)
     = [\<lparr> sample_sequence = 42, sample_state = known, sample_value = 1 \<rparr>,
        \<lparr> sample_sequence = 43, sample_state = known, sample_value = 3 \<rparr>] \<and>
   samples (value_set_state 43 unknown_x full_example)
     = [\<lparr> sample_sequence = 42, sample_state = known, sample_value = 1 \<rparr>,
        \<lparr> sample_sequence = 43, sample_state = unknown_x, sample_value = 2 \<rparr>]"
proof -
  let ?s' = "value_set 44 3 full_example"
  let ?txts = "[[], ''b01 !'' @ newline, ''b010 !'' @ newline]"
  have "samples ?s' = samples full_example \<and>
        (\<forall>starts txts. dump_run ?s' starts = Some txts \<longrightarrow>
           (\<forall>txt \<in> set txts. txt = [] \<or>
              (\<exists>i<TRACE_DEPTH full_example. dump_sample full_example i = Some txt)))"
    using full_buffer_drops_writes [where cur = 44 and s = full_example and v = 3,
        THEN conjunct1] buffer_full_example by blast
  then have a: "samples ?s' = samples full_example"
    and b: "dump_run ?s' [True, False, False] = Some ?txts \<longrightarrow>
           (\<forall>txt \<in> set ?txts. txt = [] \<or>
              (\<exists>i<TRACE_DEPTH full_example. dump_sample full_example i = Some txt))"
    by blast+
  from b full_example_dropped_run
  have c: "\<forall>txt \<in> set ?txts. txt = [] \<or>
          (\<exists>i<TRACE_DEPTH full_example. dump_sample full_example i = Some txt)"
    by blast
  have "''b01 !'' @ newline \<in> set ?txts" "''b01 !'' @ newline \<noteq> []"
    "''b010 !'' @ newline \<in> set ?txts" "''b010 !'' @ newline \<noteq> []"
    by simp_all
  with c have e:
    "\<exists>i<TRACE_DEPTH full_example. dump_sample full_example i = Some (''b01 !'' @ newline)"
    "\<exists>i<TRACE_DEPTH full_example. dump_sample full_example i = Some (''b010 !'' @ newline)"
    by blast+
  note over = full_buffer_drops_writes [where cur = 43 and s = full_example and v = 3
      and S = unknown_x, THEN conjunct2, THEN mp]
  from over full_example_last_slot
  have o1: "value_set 43 3 full_example =
           full_example \<lparr> samples := (samples full_example)[write_slot full_example :=
              sample_set (CUR_SEQ full_example) 43 3
                (samples full_example ! write_slot full_example)] \<rparr>"
    and o2: "value_set_state 43 unknown_x full_example =
           full_example \<lparr> samples := (samples full_example)[write_slot full_example :=
              sample_set_state (CUR_SEQ full_example) 43 unknown_x
                (samples full_example ! write_slot full_example)] \<rparr>"
    by blast+
  have s1: "samples (value_set 43 3 full_example)
     = [\<lparr> sample_sequence = 42, sample_state = known, sample_value = 1 \<rparr>,
        \<lparr> sample_sequence = 43, sample_state = known, sample_value = 3 \<rparr>]"
    unfolding o1 by (simp add: full_example_def write_slot_def sample_set_def)
  have s2: "samples (value_set_state 43 unknown_x full_example)
     = [\<lparr> sample_sequence = 42, sample_state = known, sample_value = 1 \<rparr>,
        \<lparr> sample_sequence = 43, sample_state = unknown_x, sample_value = 2 \<rparr>]"
    unfolding o2 by (simp add: full_example_def write_slot_def sample_set_state_def)
  from a e s1 s2 buffer_full_example full_example_dropped_run full_example_last_slot
  show ?thesis by blast
qed


text \<open>The claim as written drops every further call once \<open>D\<close> samples are pending. A call
  made while the counter still has the sequence of the last slot overwrites that slot, and
  the new value is written by the next flush.\<close>

lemma full_example_overwritten_run:
  "dump_run (value_set 43 3 full_example) [True, False, False]
     = Some [[], ''b01 !'' @ newline, ''b011 !'' @ newline]"
  by code_simp

theorem full_buffer_drops_writes_counterexample:
  "idx_write full_example = int (TRACE_DEPTH full_example) - 1 \<and>
   samples (value_set 43 3 full_example) \<noteq> samples full_example \<and>
   dump_run (value_set 43 3 full_example) [True, False, False]
     = Some [[], ''b01 !'' @ newline, ''b011 !'' @ newline]"
  using full_example_overwritten_run
  by (simp add: full_example_def value_set_def write_slot_def sample_changed_def
      sample_set_def Let_def)

text \<open>After a dropped write the write index is \<open>D\<close>, and the read index, compared with
  \<^verbatim>\<open>_idx.read > _idx.write\<close>, reaches slot \<open>D mod D = 0\<close> once more: a flush writes the
  \<open>D\<close> samples and then the oldest sample a second time.\<close>

lemma overflow_replays_oldest_sample:
  "dump_run (value_set 44 3 full_example) [True, False, False, False, False]
     = Some [[], ''b01 !'' @ newline, ''b010 !'' @ newline, ''b01 !'' @ newline, []]"
  by code_simp


section \<open>Scope tree: results\<close>

lemma header_module_of_scope:
  "finalize_header_context (module_of_scope sc) = header_text sc"
  by (induction sc rule: header_text.induct) (simp add: comp_def cong: map_cong)

lemma update_at_module_of_scope:
  assumes "\<And>s. f (module_of_scope s) = module_of_scope (g s)"
  shows "update_at p f (module_of_scope sc) = map_option module_of_scope (scope_at p g sc)"
proof (induction p arbitrary: sc)
  case Nil
  then show ?case by (simp add: assms)
next
  case (Cons i p)
  show ?case
  proof (cases sc)
    case (Scope n vars cs)
    then show ?thesis using Cons.IH [of "cs ! i"]
      by (auto simp: map_update split: option.splits)
  qed
qed

lemma register_path_module_of_scope:
  "register_path (module_of_scope sc) p var_name = scope_names sc p var_name"
proof (induction p arbitrary: sc)
  case Nil
  then show ?case by (cases sc) simp
next
  case (Cons i p)
  then show ?case by (cases sc) simp
qed

text \<open>Every elaboration step keeps the module tree equal to the text of the scope tree.\<close>

lemma elaborate_ops_module_of_scope:
  "elaborate_ops reg ops r (module_of_scope sc)
     = map_option (\<lambda>(r', sc'). (r', module_of_scope sc')) (scope_ops reg ops r sc)"
proof (induction ops arbitrary: r sc)
  case Nil
  then show ?case by simp
next
  case (Cons op ops)
  show ?case
  proof (cases op)
    case (New_module p name)
    have "module_child_ctor p name (module_of_scope sc) =
       map_option module_of_scope
         (scope_at p (\<lambda>s. case s of Scope n vars cs \<Rightarrow> Scope n vars (cs @ [Scope name [] []]))
            sc)"
      unfolding module_child_ctor_def
      by (rule update_at_module_of_scope) (simp add: module_ctor_def split: scope.splits)
    then show ?thesis using New_module Cons.IH
      by (simp split: option.splits)
  next
    case (Add_var p var_name var_type bit_size fn)
    have u: "\<And>ident. update_at p
               (\<lambda>m. Module_instance (instance_name m)
                       (vcd_scope m @ var_line var_type bit_size ident var_name) (children m))
               (module_of_scope sc) =
       map_option module_of_scope
         (scope_at p (\<lambda>s. case s of Scope n vars cs \<Rightarrow>
                          Scope n (vars @ [Var_decl var_type bit_size ident var_name]) cs) sc)"
      by (rule update_at_module_of_scope) (simp split: scope.splits)
    show ?thesis using Add_var Cons.IH
      by (simp add: module_add_var_def register_path_module_of_scope u split: option.splits)
  qed
qed

text \<open>
  Claim C9. For every scope tree built by an elaboration, the finalized header text is the
  depth-first pre-order concatenation, children in creation order, where each node
  contributes its \<^verbatim>\<open>$scope module <name> $end\<close> line, one
  \<^verbatim>\<open>$var <kind> <bits> <identifier> <name> $end\<close> line per variable it owns, in
  registration order, then the text of its children, then exactly one \<^verbatim>\<open>$upscope $end\<close>.
\<close>

theorem header_depth_first:
  "map_option (\<lambda>(r', m). finalize_header_context m)
     (elaborate_ops reg ops r (module_ctor name))
   = map_option (\<lambda>(r', sc). header_text sc) (scope_ops reg ops r (Scope name [] []))"
proof -
  have "module_ctor name = module_of_scope (Scope name [] [])"
    by (simp add: module_ctor_def)
  then have "elaborate_ops reg ops r (module_ctor name)
      = map_option (\<lambda>(r', sc'). (r', module_of_scope sc'))
          (scope_ops reg ops r (Scope name [] []))"
    by (simp only: elaborate_ops_module_of_scope)
  then show ?thesis
    by (simp add: header_module_of_scope option.map_comp comp_def split_def)
qed

lemma module_test_scope_header:
  "map_option (\<lambda>(r', sc). header_text sc)
     (scope_ops path_register module_test_ops () (Scope ''root'' [] []))
   = Some module_test_header"
  by code_simp

theorem header_depth_first_witness:
  "map_option (\<lambda>(r', m). finalize_header_context m)
     (elaborate_ops path_register module_test_ops () (module_ctor ''root''))
   = Some module_test_header"
  using header_depth_first [of path_register module_test_ops "()" "''root''"]
    module_test_scope_header
  by simp

section \<open>Trace session: the second pass ends\<close>

lemma value_dump_pending:
  assumes "value_dump s False = Some (txt, s', r)"
  shows "pending_count s' \<le> pending_count s"
    and "next_sequence r \<noteq> None \<Longrightarrow> pending_count s' < pending_count s"
  using assms
  by (auto simp: value_dump_def pending_count_def end_sequence_def Let_def
      split: if_splits option.splits)

lemma invoke_pending:
  assumes "invoke fn h False = Some (txt, h', r)"
  shows "dumper_pending h' fn' \<le> dumper_pending h fn'"
    and "next_sequence r \<noteq> None \<Longrightarrow> dumper_pending h' fn < dumper_pending h fn"
  using assms value_dump_pending
  by (auto simp: invoke_def dumper_pending_def end_sequence_def
      split: dumper_fn.splits option.splits if_splits)

lemma sum_list_pending_le:
  assumes "\<And>fn. dumper_pending h' fn \<le> dumper_pending h fn"
  shows "sum_list (map (\<lambda>e. dumper_pending h' (snd e)) dm)
           \<le> sum_list (map (\<lambda>e. dumper_pending h (snd e)) dm)"
  by (rule sum_list_mono) (simp add: assms)

lemma sum_list_pending_less:
  assumes "\<And>fn. dumper_pending h' fn \<le> dumper_pending h fn"
    and "(ident, fn0) \<in> set dm" and "dumper_pending h' fn0 < dumper_pending h fn0"
  shows "sum_list (map (\<lambda>e. dumper_pending h' (snd e)) dm)
           < sum_list (map (\<lambda>e. dumper_pending h (snd e)) dm)"
  using assms(2)
proof (induction dm)
  case Nil
  then show ?case by simp
next
  case (Cons e dm)
  show ?case
  proof (cases "e = (ident, fn0)")
    case True
    then show ?thesis
      using assms(3) sum_list_pending_le [OF assms(1), of dm] by simp
  next
    case False
    then have "(ident, fn0) \<in> set dm" using Cons.prems by simp
    from Cons.IH [OF this] show ?thesis
      using assms(1) [of "snd e"] by simp
  qed
qed

lemma status_size_push_back:
  "status_size (map_push_back k x status) \<le> status_size status + 2"
  by (induction status) (auto simp: status_size_def)

lemma map_push_back_not_Nil [simp]: "map_push_back k x status \<noteq> []"
  by (cases status) (auto split: if_splits)

lemma bucket_loop_measure:
  "bucket_loop dm identifiers h status = Some (out, h', status') \<Longrightarrow>
   drain_measure dm h' status' \<le> drain_measure dm h status \<and>
   (status \<noteq> [] \<longrightarrow> status' \<noteq> [])"
proof (induction identifiers arbitrary: h status out)
  case Nil
  then show ?case by simp
next
  case (Cons ident identifiers)
  from Cons.prems obtain fn t h1 r t' where
    fn: "map_of dm ident = Some fn" and
    inv: "invoke fn h False = Some (t, h1, r)" and
    rest: "bucket_loop dm identifiers h1
             (case next_sequence r of Some n \<Rightarrow> map_push_back n ident status | None \<Rightarrow> status)
           = Some (t', h', status')"
    by (auto simp: Let_def split: option.splits)
  let ?status1 = "case next_sequence r of Some n \<Rightarrow> map_push_back n ident status | None \<Rightarrow> status"
  have step: "drain_measure dm h1 ?status1 \<le> drain_measure dm h status"
  proof (cases "next_sequence r")
    case None
    then show ?thesis
      using sum_list_pending_le [of h1 h dm] invoke_pending(1) [OF inv]
      by (simp add: drain_measure_def)
  next
    case (Some n)
    have "(ident, fn) \<in> set dm" using fn by (rule map_of_SomeD)
    then have "sum_list (map (\<lambda>e. dumper_pending h1 (snd e)) dm)
           < sum_list (map (\<lambda>e. dumper_pending h (snd e)) dm)"
      using sum_list_pending_less [of h1 h ident fn dm] invoke_pending [OF inv] Some by simp
    then show ?thesis
      using Some status_size_push_back [of n ident status]
      by (simp add: drain_measure_def)
  qed
  have ne: "status \<noteq> [] \<longrightarrow> ?status1 \<noteq> []"
    by (cases "next_sequence r") auto
  from Cons.IH [OF rest] step ne show ?case by auto
qed

lemma status_size_tl: "status \<noteq> [] \<Longrightarrow> status_size (tl status) < status_size status"
  by (cases status) (auto simp: status_size_def)

termination second_pass
proof (relation "measure (\<lambda>(w, status, first). drain_measure (dumper_map w) (heap w) status)")
  show "wf (measure (\<lambda>(w, status, first). drain_measure (dumper_map w) (heap w) status))"
    by simp
next
  fix w :: world and status :: "(sequence_t \<times> string list) list" and first :: "sequence_t option"
    and b bs sequence identifiers first_sequence delta logged w1 res out r h status'
  assume st: "status = b # bs" and b: "(sequence, identifiers) = b"
    and logged: "logged = log_time w (timestamp w + delta) False" and w1: "w1 = snd logged"
    and loop: "bucket_loop (dumper_map w1) identifiers (heap w1) status = Some res"
    and res: "(out, r) = res" and r: "(h, status') = r"
  have dm: "dumper_map w1 = dumper_map w" and hp: "heap w1 = heap w"
    using logged w1 by (simp_all add: log_time_def)
  have l: "bucket_loop (dumper_map w) identifiers (heap w) status = Some (out, h, status')"
    using loop res r dm hp by simp
  from bucket_loop_measure [OF l] st
  have "drain_measure (dumper_map w) h status' \<le> drain_measure (dumper_map w) (heap w) status"
    and "status' \<noteq> []" by auto
  then have "drain_measure (dumper_map w) h (tl status')
      < drain_measure (dumper_map w) (heap w) status"
    using status_size_tl [of status'] by (simp add: drain_measure_def)
  then show "((w1\<lparr>heap := h\<rparr>, tl status', Some first_sequence), w, status, first)
       \<in> measure (\<lambda>(w, status, first). drain_measure (dumper_map w) (heap w) status)"
    using dm by simp
qed

declare second_pass.simps [simp del]


section \<open>Trace session: results\<close>

lemma map_of_map_assign: "map_of (map_assign k v m) k = Some v"
  by (induction m) auto

lemma value_dump_start_no_dumped:
  "value_dump s True = Some (out, s', r) \<Longrightarrow> dumped r = None"
  by (auto simp: value_dump_def end_sequence_def Let_def split: if_splits option.splits)

lemma invoke_start_no_dumped:
  "invoke fn h True = Some (out, h', r) \<Longrightarrow> dumped r = None"
  by (auto simp: invoke_def end_sequence_def value_dump_start_no_dumped
      split: dumper_fn.splits option.splits)

text \<open>No callback reports a completed write when peeked, so the first pass of a flush
  leaves the baseline unset.\<close>

lemma first_pass_no_baseline:
  "first_pass dm h status None = Some (out, h', status', first) \<Longrightarrow> first = None"
proof (induction dm arbitrary: h status out)
  case Nil
  then show ?case by simp
next
  case (Cons e dm)
  obtain ident fn where e: "e = (ident, fn)" by (cases e)
  from Cons.prems e obtain t h1 r t' where
    inv: "invoke fn h True = Some (t, h1, r)" and
    rest: "first_pass dm h1
             (case next_sequence r of Some n \<Rightarrow> map_push_back n ident status | None \<Rightarrow> status)
             (case dumped r of
                Some d \<Rightarrow> (case None of None \<Rightarrow> Some d
                           | Some f \<Rightarrow> if f > d then Some d else Some f)
              | None \<Rightarrow> None)
           = Some (t', h', status', first)"
    by (auto simp: Let_def split: option.splits)
  from invoke_start_no_dumped [OF inv] rest Cons.IH show ?case by simp
qed

lemma log_time_timestamp: "timestamp (snd (log_time w t force)) = timestamp w"
  by (simp add: log_time_def)

text \<open>The time lines of a flush do not move the logical timestamp.\<close>

lemma second_pass_timestamp:
  "second_pass w status first = Some (out, w') \<Longrightarrow> timestamp w' = timestamp w"
proof (induction w status first arbitrary: out rule: second_pass.induct)
  case (1 w status first)
  show ?case
  proof (cases status)
    case Nil
    then show ?thesis using "1.prems" by (simp add: second_pass.simps)
  next
    case (Cons b bs)
    obtain sequence identifiers where b: "b = (sequence, identifiers)" by (cases b)
    define first_sequence
      where "first_sequence = (case first of None \<Rightarrow> sequence | Some f \<Rightarrow> f)"
    define logged
      where "logged = log_time w (timestamp w + (sequence - first_sequence)) False"
    from "1.prems" Cons b obtain t h status' t' where
      loop: "bucket_loop (dumper_map (snd logged)) identifiers (heap (snd logged)) status
               = Some (t, h, status')"
      and rec: "second_pass ((snd logged) \<lparr> heap := h \<rparr>) (tl status') (Some first_sequence)
               = Some (t', w')"
      by (subst (asm) second_pass.simps)
         (auto simp: Let_def first_sequence_def logged_def split: option.splits)
    have "timestamp w' = timestamp ((snd logged) \<lparr> heap := h \<rparr>)"
      by (rule "1.IH" [OF Cons b [symmetric] first_sequence_def refl logged_def refl loop
            refl refl rec])
    then show ?thesis by (simp add: logged_def log_time_timestamp)
  qed
qed

lemma time_update_core_timestamp:
  "time_update_core w = Some (out, w') \<Longrightarrow> timestamp w' = timestamp w"
proof -
  assume a: "time_update_core w = Some (out, w')"
  then obtain t h status first t' where
    "second_pass (w \<lparr> heap := h \<rparr>) status first = Some (t', w')"
    by (auto simp: time_update_core_def split: option.splits)
  from second_pass_timestamp [OF this] show ?thesis by simp
qed

text \<open>After \<^verbatim>\<open>time_update_delta\<close> the tracepoint is the timestamp.\<close>

lemma time_update_delta_synced:
  "time_update_delta w delta = Some (out, w') \<Longrightarrow> tracepoint w' = timestamp w'"
  by (auto simp: time_update_delta_def log_time_def Let_def split: option.splits if_splits)

lemma uint_eq_sint:
  fixes x :: "64 word"
  assumes "0 \<le> sint x"
  shows "uint x = sint x"
proof -
  have "sint x < 2 ^ (LENGTH(64) - 1)" by (rule sint_lt)
  then have "sint x < 2 ^ LENGTH(64)" by simp
  then have "take_bit LENGTH(64) (sint x) = sint x"
    using assms by (simp add: take_bit_int_eq_self)
  then show ?thesis by (simp add: uint_sint)
qed

text \<open>
  For a time that is not negative, and a tracepoint below \<open>2 ^ 63\<close> after the flush,
  \<^verbatim>\<open>time_update_abs\<close> has the three cases of the specification: a time before the
  timestamp changes nothing, a time up to the tracepoint sets the timestamp to the
  tracepoint, any later time is adopted and written.
\<close>

lemma time_update_abs_cases:
  assumes core: "time_update_core w = Some (out1, w1)"
    and t: "0 \<le> sint t" and tp: "0 \<le> sint (tracepoint w1)"
  shows "time_update_abs w t =
     (if uint t < uint (timestamp w) then Some (out1, w1)
      else if uint t \<le> uint (tracepoint w1)
      then Some (out1, w1 \<lparr> timestamp := tracepoint w1 \<rparr>)
      else Some (out1 @ ''#'' @ dec (unat t) @ newline,
                 w1 \<lparr> timestamp := t, tracepoint := t \<rparr>))"
proof -
  have ts: "timestamp w1 = timestamp w" using core by (rule time_update_core_timestamp)
  have ut: "uint t = sint t" using t by (rule uint_eq_sint)
  have utp: "uint (tracepoint w1) = sint (tracepoint w1)" using tp by (rule uint_eq_sint)
  show ?thesis
    using core ts ut utp
    by (auto simp: time_update_abs_def log_time_def Let_def word_le_def word_less_def
        split: option.splits)
qed

text \<open>
  Claim C2 fails on the code. With the clock at 5, two samples pending and
  \<^verbatim>\<open>time_update_abs(3ns)\<close>, the flush writes \<open>#6\<close> before the second sample and the
  backwards time is then ignored without moving the timestamp up to the tracepoint, as
  \<^verbatim>\<open>time_update_delta\<close> does: the tracepoint is 6 and the timestamp 5. The next flush
  logs its first bucket at the timestamp and writes \<open>#5\<close> after \<open>#6\<close>.
\<close>

theorem backwards_abs_rewinds_output:
  "map_option (\<lambda>(out, w). (tracepoint w, timestamp w)) backwards_abs_run = Some (6, 5) \<and>
   map_option fst rewind_run =
     Some (''#5'' @ newline @ ''b01 !'' @ newline @ ''#6'' @ newline @ ''b010 !'' @ newline @
           ''#5'' @ newline @ ''b011 !'' @ newline @ ''#7'' @ newline)"
  by code_simp

text \<open>
  Claim C6 fails on the code for a negative time. The comparison with the timestamp is
  made on unsigned values, so \<^verbatim>\<open>time_update_abs(-1ns)\<close> is not taken as a time before the
  clock: with the clock at 0 and two samples pending, the flush moves the tracepoint to 1
  and the call then sets the timestamp to 1.
\<close>

theorem negative_abs_moves_clock:
  "map_option timestamp two_pending = Some 0 \<and>
   sint (- 1 :: 64 word) < 0 \<and>
   map_option (\<lambda>(out, w). (out, tracepoint w, timestamp w))
     (Option.bind two_pending (\<lambda>w. time_update_abs w (- 1)))
   = Some (''b01 !'' @ newline @ ''#1'' @ newline @ ''b010 !'' @ newline, 1, 1)"
  by code_simp

text \<open>
  Claim C10 fails on the code in its last part. In the session left by the ignored
  backwards time, the tracepoint is 6 and the timestamp 5: the flush adopts the first
  bucket as baseline and logs it at the timestamp, which differs from the tracepoint, so
  the values of the first bucket are preceded by the line \<open>#5\<close>.
\<close>

theorem first_bucket_logs_time_after_backwards_abs:
  "map_option (\<lambda>w. (tracepoint w, timestamp w)) after_backwards_abs = Some (6, 5) \<and>
   Option.bind after_backwards_abs (\<lambda>w. map_option fst (time_update_core w))
     = Some (''#5'' @ newline @ ''b011 !'' @ newline)"
  by code_simp

text \<open>The entries of \<open>map_assign\<close>: the keys stay in order, a closure assigned to a
  registry that does not hold it is held by one slot, and assigning another callback to the
  one slot that holds a closure removes it from the registry.\<close>

lemma map_assign_key_set:
  "set (map fst (map_assign k v m)) = insert k (set (map fst m))"
proof (induction m)
  case Nil
  then show ?case by simp
next
  case (Cons e m)
  obtain k' v' where e: "e = (k', v')" by (cases e)
  show ?case using Cons e by (cases "k < k'"; cases "k = k'") auto
qed

lemma map_assign_keys:
  "fst ` set (map_assign k v m) = insert k (fst ` set m)"
  using map_assign_key_set [of k v m] by simp

lemma map_assign_sorted:
  "sorted_wrt (<) (map fst m) \<Longrightarrow> sorted_wrt (<) (map fst (map_assign k v m))"
proof (induction m)
  case Nil
  then show ?case by simp
next
  case (Cons e m)
  obtain k' v' where e: "e = (k', v')" by (cases e)
  have keys: "\<forall>y \<in> fst ` set (map_assign k v m). k < k' \<or> y = k \<or> k' < y"
    using Cons.prems e by (auto simp: map_assign_keys)
  show ?case using Cons e keys
    by (auto simp: map_assign_keys)
qed

lemma filter_map_assign_new:
  "filter P m = [] \<Longrightarrow> P (k, v) \<Longrightarrow> filter P (map_assign k v m) = [(k, v)]"
  by (induction m) (auto split: if_splits)

lemma filter_map_assign_gone:
  "sorted_wrt (<) (map fst m) \<Longrightarrow> filter P m = [(k, x)] \<Longrightarrow> \<not> P (k, v)
     \<Longrightarrow> filter P (map_assign k v m) = []"
proof (induction m)
  case Nil
  then show ?case by simp
next
  case (Cons e m)
  obtain k' v' where e: "e = (k', v')" by (cases e)
  have "(k, x) \<in> set (filter P (e # m))" unfolding Cons.prems(2) by simp
  then have mem: "(k, x) \<in> set (e # m)" by (simp only: set_filter) simp
  show ?case
  proof (cases "P e")
    case True
    with Cons.prems(2) have "e = (k, x)" "filter P m = []" by auto
    with e Cons.prems(3) show ?thesis by simp
  next
    case False
    with Cons.prems(2) have f: "filter P m = [(k, x)]" by simp
    have "(k, x) \<in> set (filter P m)" unfolding f by simp
    then have "(k, x) \<in> set m" by (simp only: set_filter) simp
    then have "k \<in> set (map fst m)" by force
    with Cons.prems(1) e have "k' < k" by auto
    with e False Cons.IH [OF _ f Cons.prems(3)] Cons.prems(1) show ?thesis by auto
  qed
qed

lemma dumper_addresses_filter:
  "a \<notin> set (dumper_addresses dm) \<longleftrightarrow> filter (\<lambda>e. snd e = value_dumper a) dm = []"
  by (induction dm rule: dumper_addresses.induct) auto

lemma value_dump_updater:
  "value_dump s start = Some (out, s', r) \<Longrightarrow> scope_updater s' = scope_updater s"
  by (auto simp: value_dump_def Let_def split: if_splits option.splits)

lemma invoke_updater:
  "invoke fn h start = Some (out, h', r)
     \<Longrightarrow> map_option scope_updater (h' a) = map_option scope_updater (h a)"
  by (auto simp: invoke_def value_dump_updater split: dumper_fn.splits option.splits)

lemma first_pass_updater:
  "first_pass dm h status first = Some (out, h', res)
     \<Longrightarrow> map_option scope_updater (h' a) = map_option scope_updater (h a)"
proof (induction dm arbitrary: h status first out)
  case Nil
  then show ?case by simp
next
  case (Cons e dm)
  obtain ident fn where e: "e = (ident, fn)" by (cases e)
  from Cons.prems e obtain t h1 r st fi t' where
    inv: "invoke fn h True = Some (t, h1, r)" and
    rest: "first_pass dm h1 st fi = Some (t', h', res)"
    by (auto simp: Let_def split: option.splits)
  from Cons.IH [OF rest] invoke_updater [OF inv] show ?case by simp
qed

lemma bucket_loop_updater:
  "bucket_loop dm identifiers h status = Some (out, h', status')
     \<Longrightarrow> map_option scope_updater (h' a) = map_option scope_updater (h a)"
proof (induction identifiers arbitrary: h status out)
  case Nil
  then show ?case by simp
next
  case (Cons ident identifiers)
  from Cons.prems obtain fn t h1 r st t' where
    inv: "invoke fn h False = Some (t, h1, r)" and
    rest: "bucket_loop dm identifiers h1 st = Some (t', h', status')"
    by (auto simp: Let_def split: option.splits)
  from Cons.IH [OF rest] invoke_updater [OF inv] show ?case by simp
qed

lemma second_pass_registry:
  "second_pass w status first = Some (out, w')
     \<Longrightarrow> dumper_map w' = dumper_map w \<and>
         map_option scope_updater (heap w' a) = map_option scope_updater (heap w a)"
proof (induction w status first arbitrary: out rule: second_pass.induct)
  case (1 w status first)
  show ?case
  proof (cases status)
    case Nil
    then show ?thesis using "1.prems" by (simp add: second_pass.simps)
  next
    case (Cons b bs)
    obtain sequence identifiers where b: "b = (sequence, identifiers)" by (cases b)
    define first_sequence
      where "first_sequence = (case first of None \<Rightarrow> sequence | Some f \<Rightarrow> f)"
    define logged
      where "logged = log_time w (timestamp w + (sequence - first_sequence)) False"
    from "1.prems" Cons b obtain t h status' t' where
      loop: "bucket_loop (dumper_map (snd logged)) identifiers (heap (snd logged)) status
               = Some (t, h, status')"
      and rec: "second_pass ((snd logged) \<lparr> heap := h \<rparr>) (tl status') (Some first_sequence)
               = Some (t', w')"
      by (subst (asm) second_pass.simps)
         (auto simp: Let_def first_sequence_def logged_def split: option.splits)
    have "dumper_map w' = dumper_map ((snd logged) \<lparr> heap := h \<rparr>) \<and>
          map_option scope_updater (heap w' a)
            = map_option scope_updater (heap ((snd logged) \<lparr> heap := h \<rparr>) a)"
      by (rule "1.IH" [OF Cons b [symmetric] first_sequence_def refl logged_def refl loop
            refl refl rec])
    with bucket_loop_updater [OF loop, of a] show ?thesis
      by (simp add: logged_def log_time_def)
  qed
qed

lemma time_update_core_registry:
  assumes "time_update_core w = Some (out, w')"
  shows "dumper_map w' = dumper_map w \<and>
         map_option scope_updater (heap w' a) = map_option scope_updater (heap w a)"
proof -
  from assms obtain t h status first t' where
    fp: "first_pass (dumper_map w) (heap w) [] None = Some (t, h, status, first)" and
    sp: "second_pass (w \<lparr> heap := h \<rparr>) status first = Some (t', w')"
    by (auto simp: time_update_core_def split: option.splits)
  from second_pass_registry [OF sp, of a] first_pass_updater [OF fp, of a]
  show ?thesis by simp
qed

lemma registered_once_cong:
  assumes "registered_once w a ident" "dumper_map w' = dumper_map w"
    "map_option scope_updater (heap w' a) = map_option scope_updater (heap w a)"
  shows "registered_once w' a ident"
  using assms by (auto simp: registered_once_def split: option.splits)

lemma registered_once_on_signal:
  assumes "registered_once w a ident" "on_signal f b w = Some w'"
    "\<And>s. scope_updater (f s) = scope_updater s"
  shows "registered_once w' a ident"
  using assms by (auto simp: registered_once_def on_signal_def split: option.splits if_splits)

lemma value_set_updater: "scope_updater (value_set cur v s) = scope_updater s"
  by (simp add: value_set_def Let_def)

lemma value_set_state_updater: "scope_updater (value_set_state cur S s) = scope_updater s"
  by (simp add: value_set_state_def Let_def)

lemma registered_once_delta:
  assumes "registered_once w a ident" "time_update_delta w d = Some (out, w')"
  shows "registered_once w' a ident"
proof -
  from assms(2) obtain t w1 where c: "time_update_core w = Some (t, w1)"
    and w': "dumper_map w' = dumper_map w1" "heap w' = heap w1"
    by (auto simp: time_update_delta_def log_time_def Let_def split: option.splits if_splits)
  from time_update_core_registry [OF c, of a] w' registered_once_cong [OF assms(1)]
  show ?thesis by simp
qed

lemma registered_once_abs:
  assumes "registered_once w a ident" "time_update_abs w t = Some (out, w')"
  shows "registered_once w' a ident"
proof -
  from assms(2) obtain t w1 where c: "time_update_core w = Some (t, w1)"
    and w': "dumper_map w' = dumper_map w1" "heap w' = heap w1"
    by (auto simp: time_update_abs_def log_time_def Let_def split: option.splits if_splits)
  from time_update_core_registry [OF c, of a] w' registered_once_cong [OF assms(1)]
  show ?thesis by simp
qed

lemma registered_once_finalize_header:
  assumes "registered_once w a ident" "top_finalize_header w date_text = Some (out, w')"
  shows "registered_once w' a ident"
proof -
  from assms(2) obtain t where
    c: "time_update_core ((snd (log_time (w \<lparr> root_context := None \<rparr>) 0 True)) \<lparr> timestamp := 0 \<rparr>)
          = Some (t, w')"
    by (auto simp: top_finalize_header_def Let_def split: option.splits)
  from time_update_core_registry [OF c, of a] registered_once_cong [OF assms(1), of w']
  show ?thesis by (simp add: log_time_def)
qed

lemma elaborate_registered_once:
  assumes "elaborate w p a var_name = Some w'"
    "sorted_wrt (<) (map fst (dumper_map w))" "a \<notin> set (dumper_addresses (dumper_map w))"
  shows "\<exists>ident. registered_once w' a ident \<and>
           map_option scope_identifier (heap w' a) = Some ident"
proof -
  from assms(1) obtain s root ident g child_path root' where
    w': "w' = w \<lparr> generator := g,
                 identifier_map := map_assign ident child_path (identifier_map w),
                 dumper_map := map_assign ident (value_dumper a) (dumper_map w),
                 root_context := Some root',
                 heap := (heap w)(a \<mapsto> s \<lparr> scope_identifier := ident,
                                             scope_updater := top_updater ident \<rparr>) \<rparr>"
    by (auto simp: elaborate_def module_add_var_def top_register_def split: option.splits)
  have "filter (\<lambda>e. snd e = value_dumper a) (dumper_map w) = []"
    using assms(3) by (simp add: dumper_addresses_filter)
  from filter_map_assign_new [OF this, of ident "value_dumper a"] map_assign_sorted [OF assms(2)]
  have "registered_once w' a ident" by (simp add: registered_once_def w')
  then show ?thesis by (auto simp: w')
qed

lemma destroy_registered_once:
  assumes "registered_once w a ident"
  shows "\<exists>w'. destroy w a = Some w' \<and> heap w' a = None \<and>
           map_of (dumper_map w') ident = Some nop_dump \<and>
           a \<notin> set (dumper_addresses (dumper_map w'))"
proof -
  from assms obtain s where s: "heap w a = Some s" "scope_updater s = top_updater ident"
    and so: "sorted_wrt (<) (map fst (dumper_map w))"
    and f: "filter (\<lambda>e. snd e = value_dumper a) (dumper_map w) = [(ident, value_dumper a)]"
    by (auto simp: registered_once_def split: option.splits)
  from filter_map_assign_gone [OF so f, of nop_dump]
  have "a \<notin> set (dumper_addresses (map_assign ident nop_dump (dumper_map w)))"
    by (simp add: dumper_addresses_filter)
  with s show ?thesis by (simp add: destroy_def call_updater_def map_of_map_assign)
qed

lemma registered_once_slot:
  assumes "registered_once w a ident"
  shows "map_of (dumper_map w) ident = Some (value_dumper a)"
proof -
  from assms have so: "sorted_wrt (<) (map fst (dumper_map w))"
    and f: "filter (\<lambda>e. snd e = value_dumper a) (dumper_map w) = [(ident, value_dumper a)]"
    by (auto simp: registered_once_def)
  have "(ident, value_dumper a) \<in> set (filter (\<lambda>e. snd e = value_dumper a) (dumper_map w))"
    unfolding f by simp
  then have "(ident, value_dumper a) \<in> set (dumper_map w)" by (simp only: set_filter) simp
  moreover from so have "distinct (map fst (dumper_map w))"
    using strict_sorted_iff by blast
  ultimately show ?thesis by simp
qed

lemma two_pending_registered_once:
  "Option.bind two_pending (\<lambda>w. Some (registered_once w 1 ''!'')) = Some True"
  by code_simp

lemma one_signal_created_elaborated:
  "Option.bind one_signal_created (\<lambda>w.
     Some (sorted_wrt (<) (map fst (dumper_map w)), 1 \<notin> set (dumper_addresses (dumper_map w)),
           map_option (\<lambda>w1. map_option scope_identifier (heap w1 1)) (elaborate w [] 1 ''ka'')))
   = Some (True, True, Some (Some ''!''))"
  by code_simp

lemma two_pending_destroyed_flush:
  "Option.bind two_pending (\<lambda>w. Option.bind (destroy w 1)
      (\<lambda>w'. map_option fst (time_update_abs w' 10))) = Some (''#10'' @ newline)"
  by code_simp

lemma two_pending_abs_text:
  "Option.bind two_pending (\<lambda>w. map_option fst (time_update_abs w 10))
     = Some (''b01 !'' @ newline @ ''#1'' @ newline @ ''b010 !'' @ newline @ ''#10'' @ newline)"
  by code_simp

text \<open>A closure whose object is gone has no defined call: the replaced slot is what keeps
  the flush after a destruction defined.\<close>

lemma dangling_callback_undefined:
  "h a = None \<Longrightarrow> invoke (value_dumper a) h start = None"
  by (simp add: invoke_def)

text \<open>
  Claim C8, as amended. Take a traced value object that is registered once: it is alive,
  holds the updater of its identifier, and exactly one slot of the session registry, the
  slot of that identifier, holds its closure. After the object is destroyed, that slot
  holds \<^verbatim>\<open>nop_dump\<close>: invoking the callback of the slot writes nothing and reports neither a
  dumped nor a pending sequence, and no slot of the registry holds the closure of the
  object. The closure itself is not changed by the destruction: called on the session
  after it, the closure has no defined result. A single elaboration of a signal that no
  slot of the registry holds makes the signal registered once, under the identifier stored
  in it, and the calls of \<^verbatim>\<open>set\<close>, \<^verbatim>\<open>unknown\<close> and \<^verbatim>\<open>undriven\<close> on any signal, the time
  updates and \<^verbatim>\<open>finalize_header\<close> keep it registered once.
\<close>

theorem destroyed_signal_slot_is_nop:
  "(registered_once w a ident \<longrightarrow>
      map_of (dumper_map w) ident = Some (value_dumper a) \<and>
      (\<exists>w'. destroy w a = Some w' \<and> heap w' a = None \<and>
            map_of (dumper_map w') ident = Some nop_dump \<and>
            (\<forall>h start. Option.bind (map_of (dumper_map w') ident) (\<lambda>fn. invoke fn h start)
               = Some ([], h, end_sequence)) \<and>
            a \<notin> set (dumper_addresses (dumper_map w')) \<and>
            (\<forall>start. invoke (value_dumper a) (heap w') start = None))) \<and>
   (sorted_wrt (<) (map fst (dumper_map w)) \<and> a \<notin> set (dumper_addresses (dumper_map w)) \<and>
    elaborate w p a var_name = Some w1 \<longrightarrow>
      (\<exists>i. registered_once w1 a i \<and> map_option scope_identifier (heap w1 a) = Some i)) \<and>
   (registered_once w a ident \<longrightarrow>
      (\<forall>w2. on_signal (value_set cur v) b w = Some w2 \<longrightarrow> registered_once w2 a ident) \<and>
      (\<forall>w2. on_signal (value_set_state cur S) b w = Some w2 \<longrightarrow> registered_once w2 a ident) \<and>
      (\<forall>out w2. time_update_delta w d = Some (out, w2) \<longrightarrow> registered_once w2 a ident) \<and>
      (\<forall>out w2. time_update_abs w t = Some (out, w2) \<longrightarrow> registered_once w2 a ident) \<and>
      (\<forall>out w2. top_finalize_header w date_text = Some (out, w2)
         \<longrightarrow> registered_once w2 a ident))"
proof (intro conjI impI allI)
  assume r: "registered_once w a ident"
  show "map_of (dumper_map w) ident = Some (value_dumper a)"
    by (rule registered_once_slot [OF r])
  from destroy_registered_once [OF r] obtain w' where
    d: "destroy w a = Some w'" "heap w' a = None"
       "map_of (dumper_map w') ident = Some nop_dump"
       "a \<notin> set (dumper_addresses (dumper_map w'))"
    by blast
  have "\<forall>h start. Option.bind (map_of (dumper_map w') ident) (\<lambda>fn. invoke fn h start)
          = Some ([], h, end_sequence)"
    using d(3) by (simp add: invoke_def)
  moreover have "\<forall>start. invoke (value_dumper a) (heap w') start = None"
    using d(2) by (simp add: invoke_def)
  ultimately show "\<exists>w'. destroy w a = Some w' \<and> heap w' a = None \<and>
            map_of (dumper_map w') ident = Some nop_dump \<and>
            (\<forall>h start. Option.bind (map_of (dumper_map w') ident) (\<lambda>fn. invoke fn h start)
               = Some ([], h, end_sequence)) \<and>
            a \<notin> set (dumper_addresses (dumper_map w')) \<and>
            (\<forall>start. invoke (value_dumper a) (heap w') start = None)"
    using d by blast
next
  assume "sorted_wrt (<) (map fst (dumper_map w)) \<and>
          a \<notin> set (dumper_addresses (dumper_map w)) \<and> elaborate w p a var_name = Some w1"
  then show "\<exists>i. registered_once w1 a i \<and> map_option scope_identifier (heap w1 a) = Some i"
    using elaborate_registered_once [of w p a var_name w1] by blast
next
  fix w2
  assume "registered_once w a ident" "on_signal (value_set cur v) b w = Some w2"
  then show "registered_once w2 a ident"
    by (rule registered_once_on_signal) (rule value_set_updater)
next
  fix w2
  assume "registered_once w a ident" "on_signal (value_set_state cur S) b w = Some w2"
  then show "registered_once w2 a ident"
    by (rule registered_once_on_signal) (rule value_set_state_updater)
next
  fix out w2
  assume "registered_once w a ident" "time_update_delta w d = Some (out, w2)"
  then show "registered_once w2 a ident" by (rule registered_once_delta)
next
  fix out w2
  assume "registered_once w a ident" "time_update_abs w t = Some (out, w2)"
  then show "registered_once w2 a ident" by (rule registered_once_abs)
next
  fix out w2
  assume "registered_once w a ident" "top_finalize_header w date_text = Some (out, w2)"
  then show "registered_once w2 a ident" by (rule registered_once_finalize_header)
qed

theorem destroyed_signal_slot_is_nop_witness:
  "(\<exists>w0 w1. one_signal_created = Some w0 \<and> elaborate w0 [] 1 ''ka'' = Some w1 \<and>
       registered_once w1 1 ''!'') \<and>
   (\<exists>w w'. two_pending = Some w \<and> registered_once w 1 ''!'' \<and>
       map_of (dumper_map w) ''!'' = Some (value_dumper 1) \<and>
       destroy w 1 = Some w' \<and> map_of (dumper_map w') ''!'' = Some nop_dump \<and>
       1 \<notin> set (dumper_addresses (dumper_map w')) \<and>
       map_option fst (time_update_abs w' 10) = Some (''#10'' @ newline)) \<and>
   (\<exists>w out w2. two_pending = Some w \<and> time_update_abs w 10 = Some (out, w2) \<and>
       registered_once w2 1 ''!'')"
proof (intro conjI)
  from one_signal_created_elaborated obtain w0 w1 where
    w0: "one_signal_created = Some w0" "sorted_wrt (<) (map fst (dumper_map w0))"
        "1 \<notin> set (dumper_addresses (dumper_map w0))"
        "elaborate w0 [] 1 ''ka'' = Some w1"
        "map_option scope_identifier (heap w1 1) = Some ''!''"
    by (auto simp: bind_eq_Some_conv)
  from destroyed_signal_slot_is_nop [where w = w0 and a = 1 and p = "[]"
      and var_name = "''ka''" and ?w1.0 = w1, THEN conjunct2, THEN conjunct1] w0(2,3,4)
  obtain i where "registered_once w1 1 i" "map_option scope_identifier (heap w1 1) = Some i"
    by blast
  with w0 show "\<exists>w0 w1. one_signal_created = Some w0 \<and> elaborate w0 [] 1 ''ka'' = Some w1 \<and>
       registered_once w1 1 ''!''"
    by auto
next
  from two_pending_registered_once obtain w where
    w: "two_pending = Some w" "registered_once w 1 ''!''"
    by (auto simp: bind_eq_Some_conv)
  from destroyed_signal_slot_is_nop [where w = w and a = 1 and ident = "''!''",
      THEN conjunct1] w(2)
  obtain w' where
    d: "map_of (dumper_map w) ''!'' = Some (value_dumper 1)"
       "destroy w 1 = Some w'" "map_of (dumper_map w') ''!'' = Some nop_dump"
       "1 \<notin> set (dumper_addresses (dumper_map w'))"
    by blast
  have "map_option fst (time_update_abs w' 10) = Some (''#10'' @ newline)"
    using two_pending_destroyed_flush unfolding w(1) Option.bind.simps d(2) .
  with w d show "\<exists>w w'. two_pending = Some w \<and> registered_once w 1 ''!'' \<and>
       map_of (dumper_map w) ''!'' = Some (value_dumper 1) \<and>
       destroy w 1 = Some w' \<and> map_of (dumper_map w') ''!'' = Some nop_dump \<and>
       1 \<notin> set (dumper_addresses (dumper_map w')) \<and>
       map_option fst (time_update_abs w' 10) = Some (''#10'' @ newline)"
    by blast
next
  from two_pending_registered_once obtain w where
    w: "two_pending = Some w" "registered_once w 1 ''!''"
    by (auto simp: bind_eq_Some_conv)
  from two_pending_abs_text obtain r where
    "Option.bind two_pending (\<lambda>w. time_update_abs w 10) = Some r"
    by (auto simp: bind_eq_Some_conv)
  then obtain out w2 where t: "time_update_abs w 10 = Some (out, w2)"
    unfolding w(1) Option.bind.simps by (cases r) auto
  note kept = destroyed_signal_slot_is_nop [where w = w and a = 1 and ident = "''!''"
      and t = 10, THEN conjunct2, THEN conjunct2, THEN mp, OF w(2)]
  from kept [THEN conjunct2, THEN conjunct2, THEN conjunct2, THEN conjunct1] t
  have "registered_once w2 1 ''!''" by blast
  with w t show "\<exists>w out w2. two_pending = Some w \<and> time_update_abs w 10 = Some (out, w2) \<and>
       registered_once w2 1 ''!''"
    by blast
qed

text \<open>The claim as written speaks of every callback captured from the registration. The
  closure that the signal handed over, which the slot \<open>!\<close> held before the destruction, is
  such a callback: called after the destruction it has no defined result, where the claim
  promises a call that writes nothing.\<close>

theorem destroyed_signal_slot_is_nop_counterexample:
  "Option.bind two_pending (\<lambda>w. map_of (dumper_map w) ''!'') = Some (value_dumper 1) \<and>
   held_copy_after_destroy = Some None"
  by code_simp

text \<open>A signal elaborated twice holds the updater of its second identifier only. After its
  destruction the slot of the first identifier still holds the closure, and the next flush,
  which calls it, has no defined result.\<close>

lemma elaborated_twice_keeps_closure:
  "Option.bind elaborated_twice (\<lambda>w. map_option dumper_map (destroy w 1))
     = Some [(''!'', value_dumper 1), ([CHR 0x22], nop_dump)] \<and>
   Option.bind elaborated_twice (\<lambda>w. map_option (\<lambda>w'. map_option fst (time_update_core w'))
                                         (destroy w 1))
     = Some None"
  by code_simp


section \<open>The merge: pending samples of a signal\<close>













section \<open>The merge: the status map\<close>











lemma map_push_back_later:
  "q < k \<Longrightarrow> map_push_back k i ((q, ids) # rs) = (q, ids) # map_push_back k i rs"
  by auto


section \<open>The merge: calls through the registry\<close>












section \<open>The merge: the two passes\<close>











section \<open>The merge: text and order\<close>























section \<open>The merge: time updates\<close>













end
